theory Spec2Isabelle
  imports Main "HOL-Library.Word"
begin

unbundle bit_operations_syntax

section \<open>Machine integers of the target\<close>

text \<open>
  The firmware is built for an 8-bit AVR (Arduino Duemilanove): \<open>int\<close> is 16 bits wide,
  \<open>long\<close> is 32 bits.  Every C integer is a word of its width; signed variables are read
  with \<open>sint\<close>, compared with \<open><s\<close> and shifted right with \<open>signed_drop_bit\<close>
  (the compiler's arithmetic shift).  Signed arithmetic that leaves the range wraps
  around, as the two's-complement hardware does.
\<close>

type_synonym u8 = "8 word"
type_synonym u16 = "16 word"
type_synonym s16 = "16 word"
type_synonym u32 = "32 word"
type_synonym s32 = "32 word"

text \<open>C's signed division on \<open>int16_t\<close> operands: the quotient is truncated towards zero.\<close>

definition sdiv16 :: "s16 \<Rightarrow> s16 \<Rightarrow> s16" where
  "sdiv16 x y = word_of_int (sgn (sint x) * sgn (sint y) * (\<bar>sint x\<bar> div \<bar>sint y\<bar>))"

text \<open>
  The macro \<open>CLAMP(x, mi, ma)\<close> of \<open>pilot.c\<close>: two consecutive signed tests, the second
  one on the value the first one left in \<open>x\<close>.
\<close>

definition CLAMP :: "'a::len word \<Rightarrow> 'a word \<Rightarrow> 'a word \<Rightarrow> 'a word" where
  "CLAMP x mi ma = (let x1 = (if x <s mi then mi else x) in if ma <s x1 then ma else x1)"

section \<open>Program state and the values read from the collaborators\<close>

text \<open>
  Console output and driver calls are recorded in a trace, oldest event first.  The
  output routines live in \<open>uart.h\<close>; they are taken to receive \<open>uint16_t\<close>
  (\<open>serial_write_hex16\<close>), \<open>uint8_t\<close> (\<open>serial_write_dec8\<close>) and two \<open>uint32_t\<close>
  (\<open>serial_write_fp32\<close>).  Busy-wait delays leave no event.
\<close>

datatype event =
    SerialInit | AdcInit | TimerInit | ActuatorsInit nat | SerialSetHandler
  | RxInit | TwiInit | AdcConvertAll
  | WriteStr string | WriteHex16 u16 | WriteFp32 u32 u32 | Write1 char
  | WriteDec8 u8 | WriteEol
  | AhrsInit | ActuatorsStart

text \<open>
  The file-scope variables of \<open>pilot.c\<close> (\<open>motor\<close>, \<open>modes\<close>, \<open>prev_sw\<close> and the
  function-static \<open>set_yaw\<close>), the global interrupt flag that \<open>sei\<close> and \<open>cli\<close> switch,
  the last command handed to \<open>actuator_set\<close> for each motor, and the trace.
\<close>

record pilot =
  motor :: "nat \<Rightarrow> u8"
  modes :: u8
  prev_sw :: u8
  set_yaw :: s16
  irq :: bool
  act :: "nat \<Rightarrow> u16"
  trace :: "event list"

text \<open>
  The receiver channels (\<open>rx.h\<close>, \<open>uint8_t\<close> each) and the attitude estimate
  (\<open>ahrs.h\<close>: pitch and roll \<open>int32_t\<close>, yaw and the three rates \<open>int16_t\<close>) as one
  control tick finds them.
\<close>

record sensors =
  rx_co_throttle :: u8
  rx_co_right :: u8
  rx_cy_right :: u8
  rx_cy_front :: u8
  rx_gyro_sw :: u8
  rx_right_pot :: u8
  ahrs_pitch :: s32
  ahrs_roll :: s32
  ahrs_yaw :: s16
  ahrs_pitch_rate :: s16
  ahrs_roll_rate :: s16
  ahrs_yaw_rate :: s16

datatype modes_e = MODE_MOTORS_ARMED | MODE_HEADINGHOLD_ENABLE | MODE_PANTILT_ENABLE

fun mode_bit :: "modes_e \<Rightarrow> nat" where
  "mode_bit MODE_MOTORS_ARMED = 0"
| "mode_bit MODE_HEADINGHOLD_ENABLE = 1"
| "mode_bit MODE_PANTILT_ENABLE = 2"

text \<open>The test \<open>modes & (1 << m)\<close>.\<close>

definition mode_on :: "u8 \<Rightarrow> modes_e \<Rightarrow> bool" where
  "mode_on m e = (m AND push_bit (mode_bit e) 1 \<noteq> 0)"

definition initial :: pilot where
  "initial = \<lparr>motor = (\<lambda>n. 0), modes = 0, prev_sw = 0, set_yaw = 0, irq = False,
     act = (\<lambda>n. 0), trace = []\<rparr>"

section \<open>Console commands: \<open>show_state\<close> and \<open>handle_input\<close>\<close>

definition show_state :: "pilot \<Rightarrow> pilot" where
  "show_state s = s\<lparr>trace := trace s @
     [WriteDec8 (motor s 0), WriteDec8 (motor s 1), WriteDec8 (motor s 2),
      WriteDec8 (motor s 3), WriteEol]\<rparr>"

text \<open>
  \<open>MOTOR_DOWN(n)\<close> and \<open>MOTOR_UP(n)\<close>: the guarded step on \<open>motor[n]\<close>, then
  \<open>actuator_set(n, motor[n] << 8)\<close> whether or not the step was taken.  The shifted
  value is passed as the driver's 16-bit unsigned command, so it keeps the bit
  pattern also from 128 upwards.
\<close>

definition MOTOR_DOWN :: "nat \<Rightarrow> pilot \<Rightarrow> pilot" where
  "MOTOR_DOWN n s =
     (let m = (if 0 < motor s n then (motor s)(n := motor s n - 1) else motor s)
      in s\<lparr>motor := m, act := (act s)(n := push_bit 8 (ucast (m n)))\<rparr>)"

definition MOTOR_UP :: "nat \<Rightarrow> pilot \<Rightarrow> pilot" where
  "MOTOR_UP n s =
     (let m = (if motor s n < 255 then (motor s)(n := motor s n + 1) else motor s)
      in s\<lparr>motor := m, act := (act s)(n := push_bit 8 (ucast (m n)))\<rparr>)"

text \<open>
  Every case of the \<open>switch\<close> ends in \<open>break\<close> and reaches \<open>sei(); show_state();\<close>;
  \<open>default\<close> returns at once.
\<close>

definition accepted :: "pilot \<Rightarrow> pilot" where
  "accepted s = show_state (s\<lparr>irq := True\<rparr>)"

definition handle_input :: "char \<Rightarrow> pilot \<Rightarrow> pilot" where
  "handle_input ch s =
     (if ch = CHR ''a'' then accepted (MOTOR_DOWN 0 s)
      else if ch = CHR ''s'' then accepted (MOTOR_DOWN 1 s)
      else if ch = CHR ''d'' then accepted (MOTOR_DOWN 2 s)
      else if ch = CHR ''f'' then accepted (MOTOR_DOWN 3 s)
      else if ch = CHR ''q'' then accepted (MOTOR_UP 0 s)
      else if ch = CHR ''w'' then accepted (MOTOR_UP 1 s)
      else if ch = CHR ''e'' then accepted (MOTOR_UP 2 s)
      else if ch = CHR ''r'' then accepted (MOTOR_UP 3 s)
      else s)"

section \<open>The mode switch: \<open>modes_update\<close>\<close>

text \<open>
  \<open>num = ((uint16_t) rx_right_pot + 36) / 49\<close> is computed in 16 bits and stored in a
  \<open>uint8_t\<close>.
\<close>

definition mode_num :: "u8 \<Rightarrow> u8" where
  "mode_num pot = ucast (((ucast pot :: u16) + 36) div 49)"

text \<open>
  \<open>modes &= 1 << num; modes |= prev_sw << num;\<close> with both right-hand sides computed
  in \<open>int\<close> and the result stored back into the \<open>uint8_t\<close>.  The switch is read once
  per call.
\<close>

definition modes_update :: "pilot \<Rightarrow> sensors \<Rightarrow> pilot" where
  "modes_update s inp =
     (if rx_gyro_sw inp = prev_sw s then s
      else
        let sw = rx_gyro_sw inp;
            num = unat (mode_num (rx_right_pot inp));
            m1 = (ucast ((ucast (modes s) :: s16) AND push_bit num 1) :: u8);
            m2 = (ucast ((ucast m1 :: s16) OR push_bit num (ucast sw)) :: u8)
        in s\<lparr>prev_sw := sw, modes := m2\<rparr>)"

section \<open>The control mixer: \<open>control_update\<close>\<close>

text \<open>The easing applied to \<open>dest_pitch\<close> and, with the same constants, to \<open>dest_roll\<close>.\<close>

definition easing :: "s16 \<Rightarrow> s16" where
  "easing e =
     (if e <s 0x400 \<and> - 0x400 <s e then signed_drop_bit 2 e
      else if 0 <s e then e - 0x300
      else e + 0x300)"

text \<open>The local variables of \<open>control_update\<close> and \<open>set_yaw\<close>, as they are when the
  function returns.\<close>

record locals =
  co_right :: u8
  cy_right :: u8
  cy_front :: u8
  cur_pitch :: s16
  cur_roll :: s16
  cur_yaw :: s16
  dest_pitch :: s16
  dest_roll :: s16
  dest_yaw :: s16
  base_throttle :: s16
  new_set_yaw :: s16
  a :: s32
  b :: s32
  c :: s32
  d :: s32

definition control_locals :: "pilot \<Rightarrow> sensors \<Rightarrow> locals" where
  "control_locals s inp =
     (let cur_pitch0 = (ucast (signed_drop_bit 16 (ahrs_pitch inp)
                          + scast (signed_drop_bit 2 (ahrs_pitch_rate inp))) :: s16);
          cur_roll0 = (ucast (signed_drop_bit 16 (ahrs_roll inp)
                          + scast (signed_drop_bit 2 (ahrs_roll_rate inp))) :: s16);
          cur_yaw0 = ahrs_yaw inp + push_bit 1 (ahrs_yaw_rate inp);
          pantilt = mode_on (modes s) MODE_PANTILT_ENABLE;
          co_right0 = (if pantilt then 0x80 else rx_co_right inp);
          cy_right0 = (if pantilt then 0x80 else rx_cy_right inp);
          cy_front0 = (if pantilt then 0x80 else rx_cy_front inp);
          dest_pitch1 = push_bit 5 (ucast cy_front0 :: s16) - push_bit 5 128;
          dest_roll1 = push_bit 5 (ucast cy_right0 :: s16) - push_bit 5 128;
          set_yaw1 = set_yaw s + (push_bit 2 (ucast co_right0 :: s16) - push_bit 2 128);
          dest_yaw1 = set_yaw1;
          base_throttle0 = (push_bit 7 (ucast (rx_co_throttle inp)) :: s16);
          dest_pitch2 = sdiv16 (- (cur_pitch0 + dest_pitch1)) 1;
          dest_roll2 = sdiv16 (- (cur_roll0 + dest_roll1)) 1;
          dest_yaw2 = cur_yaw0 - dest_yaw1;
          dest_pitch3 = easing dest_pitch2;
          dest_roll3 = easing dest_roll2;
          hold = mode_on (modes s) MODE_HEADINGHOLD_ENABLE;
          dest_yaw3 = (if hold then CLAMP dest_yaw2 (- 0x800) 0x800
                       else push_bit 5 128 - push_bit 5 (ucast co_right0 :: s16));
          set_yaw2 = (if hold then set_yaw1 else cur_yaw0);
          a0 = (scast base_throttle0 :: s32) + scast dest_pitch3 + scast dest_roll3 + scast dest_yaw3;
          b0 = (scast base_throttle0 :: s32) - scast dest_pitch3 + scast dest_roll3 - scast dest_yaw3;
          c0 = (scast base_throttle0 :: s32) + scast dest_pitch3 - scast dest_roll3 - scast dest_yaw3;
          d0 = (scast base_throttle0 :: s32) - scast dest_pitch3 - scast dest_roll3 + scast dest_yaw3
      in \<lparr>co_right = co_right0, cy_right = cy_right0, cy_front = cy_front0,
          cur_pitch = cur_pitch0, cur_roll = cur_roll0, cur_yaw = cur_yaw0,
          dest_pitch = dest_pitch3, dest_roll = dest_roll3, dest_yaw = dest_yaw3,
          base_throttle = base_throttle0, new_set_yaw = set_yaw2,
          a = CLAMP a0 0 32000, b = CLAMP b0 0 32000,
          c = CLAMP c0 0 32000, d = CLAMP d0 0 32000\<rparr>)"

text \<open>
  The effects of \<open>control_update\<close>: interrupts are enabled again after the snapshot,
  \<open>set_yaw\<close> keeps its new value, and the four clamped sums go to \<open>actuator_set\<close>,
  each cast to \<open>uint16_t\<close>.
\<close>

definition control_update :: "pilot \<Rightarrow> sensors \<Rightarrow> pilot" where
  "control_update s inp =
     (let l = control_locals s inp
      in s\<lparr>set_yaw := new_set_yaw l, irq := True,
           act := (act s)(0 := ucast (a l), 1 := ucast (b l), 2 := ucast (c l), 3 := ucast (d l))\<rparr>)"

text \<open>One pass of \<open>loop\<close>, and the passes of \<open>for (;;) loop();\<close> over the successive
  sensor snapshots.\<close>

definition loop :: "pilot \<Rightarrow> sensors \<Rightarrow> pilot" where
  "loop s inp = control_update (modes_update s inp) inp"

fun loops :: "pilot \<Rightarrow> sensors list \<Rightarrow> pilot" where
  "loops s [] = s"
| "loops s (inp # inps) = loops (loop s inp) inps"

section \<open>The boot sequence: \<open>die\<close>, \<open>setup\<close> and \<open>main\<close>\<close>

text \<open>
  What \<open>setup\<close> reads from the hardware.  \<open>adc_values\<close> is the array of \<open>adc.h\<close>
  (\<open>uint16_t\<close> each) as \<open>setup\<close> finds it; \<open>adc_convert k ch\<close> is what the call
  \<open>adc_convert(ch)\<close> returns in pass \<open>k\<close> of the gyro loop; \<open>ver\<close> and \<open>mag_regs\<close>
  are the buffers after their \<open>cmps09_read_bytes\<close> calls and \<open>accel_regs k\<close> is
  \<open>regs\<close> after the read of pass \<open>k\<close> of the accelerometer loop;
  \<open>cmps09_mag_calib\<close> is the table of \<open>cmps09.h\<close> (\<open>int16_t\<close> each);
  \<open>rx_no_signal\<close> and \<open>rx_throttle\<close> are the receiver's \<open>rx_no_signal\<close> and
  \<open>rx_co_throttle\<close> when the receiver check reads them (\<open>setup\<close> stores 10 in
  \<open>rx_no_signal\<close> before it waits; the receiver's interrupt writes both afterwards).
\<close>

record boot =
  SREG :: u8
  MCUCR :: u8
  adc_values :: "nat \<Rightarrow> u16"
  adc_convert :: "nat \<Rightarrow> nat \<Rightarrow> u16"
  ver :: u8
  mag_regs :: "nat \<Rightarrow> u8"
  cmps09_mag_calib :: "nat \<Rightarrow> s16"
  accel_regs :: "nat \<Rightarrow> nat \<Rightarrow> u8"
  rx_no_signal :: u8
  rx_throttle :: u8

text \<open>
  A call either returns with a state or, through \<open>die\<close>, stays in \<open>while (1);\<close>
  with the state it had there.
\<close>

datatype exec = is_Halted: Halted (final: pilot) | is_Running: Running (final: pilot)

definition emit :: "event list \<Rightarrow> pilot \<Rightarrow> pilot" where
  "emit es s = s\<lparr>trace := trace s @ es\<rparr>"

text \<open>\<open>die\<close>: \<open>cli()\<close>, the message, and the empty loop that never ends.\<close>

definition die :: "pilot \<Rightarrow> exec" where
  "die s = Halted (emit [WriteStr ''ERROR''] (s\<lparr>irq := False\<rparr>))"

text \<open>
  Modelled from the spec: the search behind \<open>isqrt32\<close>, which adds to \<open>r\<close> each of the
  \<open>k\<close> lowest bits, from the highest down, whenever the square stays at or below \<open>n\<close>.
\<close>

fun isqrt_bits :: "nat \<Rightarrow> nat \<Rightarrow> nat \<Rightarrow> nat" where
  "isqrt_bits 0 n r = r"
| "isqrt_bits (Suc k) n r =
     isqrt_bits k n (if (r + 2 ^ k) * (r + 2 ^ k) \<le> n then r + 2 ^ k else r)"

text \<open>
  Modelled from the spec: \<open>isqrt32\<close> of \<open>isqrt.h\<close>, whose code is not in \<open>pilot.c\<close>; the
  specification calls it the integer square root.  It is taken as the largest \<open>r\<close>
  with \<open>r * r \<le> x\<close> and returned in 32 bits.
\<close>

definition isqrt32 :: "u32 \<Rightarrow> u32" where
  "isqrt32 x = of_nat (isqrt_bits 16 (unat x) 0)"

text \<open>The lines up to the magnetometer revision.\<close>

definition boot_report :: "boot \<Rightarrow> pilot" where
  "boot_report bt =
     emit
       [SerialInit, AdcInit, TimerInit, ActuatorsInit 4, SerialSetHandler, RxInit, TwiInit,
        AdcConvertAll,
        WriteStr ''SREG:'', WriteHex16 (ucast (SREG bt)),
        WriteStr '', MCUCR:'', WriteHex16 (ucast (MCUCR bt)), WriteEol,
        WriteStr ''Battery voltage:'',
        WriteFp32 ((ucast (adc_values bt 3) :: u32) * 323 * (991 + 241)) (0x400 * 100 * 241),
        Write1 CHR ''V'', WriteEol,
        WriteStr ''CPU temperature:'',
        WriteFp32 (ucast ((adc_values bt 4 - 269) * 1100)) 0x400, WriteEol,
        WriteStr ''Magnetometer revision:'', WriteHex16 (ucast (ver bt)), WriteEol]
       (initial\<lparr>irq := True\<rparr>)"

subsection \<open>Gyro zero-rate check\<close>

definition in_band :: "u16 \<Rightarrow> bool" where
  "in_band v = (0x2a0 < v \<and> v < 0x350)"

definition in_band3 :: "(nat \<Rightarrow> u16) \<Rightarrow> bool" where
  "in_band3 adc = (in_band (adc 0) \<and> in_band (adc 1) \<and> in_band (adc 2))"

text \<open>The three assignments of the loop body, in pass \<open>k\<close>.\<close>

definition gyro_read :: "(nat \<Rightarrow> nat \<Rightarrow> u16) \<Rightarrow> nat \<Rightarrow> (nat \<Rightarrow> u16) \<Rightarrow> (nat \<Rightarrow> u16)" where
  "gyro_read conv k adc = adc(0 := 2 * conv k 0, 1 := 2 * conv k 1, 2 := 2 * conv k 2)"

text \<open>
  The \<open>while\<close> loop.  \<open>cnt ++ < 20\<close> is the last operand of the \<open>&&\<close> chain: it is
  evaluated, and \<open>cnt\<close> incremented, only when all six comparisons held.  The result
  is \<open>cnt\<close> and \<open>adc_values\<close> when the loop is left.
\<close>

function gyro_poll :: "(nat \<Rightarrow> nat \<Rightarrow> u16) \<Rightarrow> u8 \<Rightarrow> (nat \<Rightarrow> u16) \<Rightarrow> u8 \<times> (nat \<Rightarrow> u16)" where
  "gyro_poll conv cnt adc =
     (if in_band3 adc
      then (if cnt < 20 then gyro_poll conv (cnt + 1) (gyro_read conv (unat cnt) adc)
            else (cnt + 1, adc))
      else (cnt, adc))"
  by pat_completeness auto
termination
  by (relation "measure (\<lambda>(conv, cnt, adc). 20 - unat cnt)")
     (auto simp: word_less_nat_alt unat_word_ariths)

definition gyro_cnt :: "boot \<Rightarrow> u8" where
  "gyro_cnt bt = fst (gyro_poll (adc_convert bt) 0 (adc_values bt))"

definition gyro_bad :: "boot \<Rightarrow> bool" where
  "gyro_bad bt = (gyro_cnt bt < 21)"

subsection \<open>Magnetic field magnitude\<close>

text \<open>\<open>((uint16_t) regs[i] << 8) | regs[i + 1]\<close>.\<close>

definition be16 :: "(nat \<Rightarrow> u8) \<Rightarrow> nat \<Rightarrow> u16" where
  "be16 regs i = push_bit 8 (ucast (regs i)) OR ucast (regs (i + 1))"

text \<open>\<open>(int32_t) v * v\<close>.\<close>

definition sq32 :: "s16 \<Rightarrow> u32" where
  "sq32 v = scast v * scast v"

text \<open>The value of \<open>v\<close> for axis \<open>k\<close>: the register pair less its calibration offset,
  stored in an \<open>int16_t\<close>.\<close>

definition mag_v :: "boot \<Rightarrow> nat \<Rightarrow> s16" where
  "mag_v bt k = be16 (mag_regs bt) (2 * k) - cmps09_mag_calib bt k"

definition mag_len :: "boot \<Rightarrow> u32" where
  "mag_len bt = isqrt32 (sq32 (mag_v bt 0) + sq32 (mag_v bt 1) + sq32 (mag_v bt 2))"

definition mag_bad :: "boot \<Rightarrow> bool" where
  "mag_bad bt = (600 < mag_len bt \<or> mag_len bt < 300)"

subsection \<open>Accelerometer at rest\<close>

text \<open>\<open>((int16_t) (((uint16_t) regs[i] << 8) | regs[i + 1]) + 1) >> 1\<close>.\<close>

definition accel_v :: "(nat \<Rightarrow> u8) \<Rightarrow> nat \<Rightarrow> s16" where
  "accel_v regs k = signed_drop_bit 1 (be16 regs (2 * k) + 1)"

text \<open>The \<open>for\<close> loop over \<open>cnt\<close>; \<open>len\<close> comes in with the value it has.\<close>

function accel_loop :: "(nat \<Rightarrow> nat \<Rightarrow> u8) \<Rightarrow> u8 \<Rightarrow> u32 \<Rightarrow> u32" where
  "accel_loop rd cnt len =
     (if cnt < 16
      then accel_loop rd (cnt + 1)
             (len + sq32 (accel_v (rd (unat cnt)) 0) + sq32 (accel_v (rd (unat cnt)) 1)
                  + sq32 (accel_v (rd (unat cnt)) 2))
      else len)"
  by pat_completeness auto
termination
  by (relation "measure (\<lambda>(rd, cnt, len). 16 - unat cnt)")
     (auto simp: word_less_nat_alt unat_word_ariths)

text \<open>
  \<open>len\<close> still holds the result of the magnetic check when the loop starts;
  after the loop \<open>len = (isqrt32(len) + 1) >> 1\<close>.
\<close>

definition accel_sum :: "boot \<Rightarrow> u32" where
  "accel_sum bt = accel_loop (accel_regs bt) 0 (mag_len bt)"

definition accel_len :: "boot \<Rightarrow> u32" where
  "accel_len bt = drop_bit 1 (isqrt32 (accel_sum bt) + 1)"

definition accel_bad :: "boot \<Rightarrow> bool" where
  "accel_bad bt = (0x4070 < accel_len bt \<or> accel_len bt < 0x3f00)"

subsection \<open>Receiver and the whole of \<open>setup\<close>\<close>

text \<open>The function \<open>setup\<close> is named \<open>pilot_setup\<close> here.\<close>

definition throttle_bad :: "boot \<Rightarrow> bool" where
  "throttle_bad bt = (rx_no_signal bt = 0 \<and> 5 < rx_throttle bt)"

definition crlf :: string where
  "crlf = [CHR 0x0D, CHR 0x0A]"

definition pilot_setup :: "boot \<Rightarrow> exec" where
  "pilot_setup bt =
     (let s1 = boot_report bt in
      if ver bt \<noteq> 0x02 then die s1
      else
        let s2 = emit [WriteStr ''Checking if gyro readings in range.. ''] s1 in
        if gyro_bad bt then die s2
        else
          let s3 = emit [WriteStr ''yep'', WriteEol,
                         WriteStr ''Checking magnetic field magnitude.. '',
                         WriteFp32 (mag_len bt) 1000, WriteStr '' T'', WriteEol] s2 in
          if mag_bad bt then die s3
          else
            let s4 = emit [WriteStr ''Checking accelerometer readings.. '',
                           WriteFp32 (accel_len bt) 0x4050, WriteStr '' g'', WriteEol] s3 in
            if accel_bad bt then die s4
            else
              let s5 = emit [WriteStr ''Receiver signal: '',
                             WriteStr (if rx_no_signal bt \<noteq> 0 then ''NOPE'' else ''yep''),
                             WriteEol] s4 in
              if throttle_bad bt
              then die (emit [WriteStr (''Throttle stick is not in the bottom position'' @ crlf)] s5)
              else Running (show_state (emit
                     [WriteStr (''Calibrating sensors..'' @ crlf), AhrsInit, ActuatorsStart,
                      WriteStr (''AHRS loop and actuator signals are running'' @ crlf)] s5)))"

text \<open>
  \<open>main\<close>: \<open>setup\<close>, then \<open>loop\<close> once for each sensor snapshot.  When \<open>setup\<close> ended in
  \<open>die\<close> no pass of \<open>loop\<close> is ever made.
\<close>

definition main :: "boot \<Rightarrow> sensors list \<Rightarrow> exec" where
  "main bt inps = (case pilot_setup bt of Halted s \<Rightarrow> Halted s | Running s \<Rightarrow> Running (loops s inps))"

text \<open>The equations of the two loops are unfolded by hand only.\<close>

declare gyro_poll.simps [simp del] accel_loop.simps [simp del]

section \<open>Notions used to state the properties\<close>

text \<open>The easing law on the signed values.\<close>

definition easing_int :: "int \<Rightarrow> int" where
  "easing_int i =
     (if i < 1024 \<and> - 1024 < i then i div 4 else if 0 < i then i - 768 else i + 768)"

text \<open>The console commands as a table: the motor a character addresses and whether it
  steps up.\<close>

definition cmd_of :: "char \<Rightarrow> (nat \<times> bool) option" where
  "cmd_of ch =
     (if ch = CHR ''a'' then Some (0, False) else if ch = CHR ''s'' then Some (1, False)
      else if ch = CHR ''d'' then Some (2, False) else if ch = CHR ''f'' then Some (3, False)
      else if ch = CHR ''q'' then Some (0, True) else if ch = CHR ''w'' then Some (1, True)
      else if ch = CHR ''e'' then Some (2, True) else if ch = CHR ''r'' then Some (3, True)
      else None)"

text \<open>What an accepted command on motor \<open>n\<close> leaves behind: the test value stepped
  by one and held at the end of its range, that value times 256 handed to
  \<open>actuator_set\<close>, interrupts enabled and the four values printed.\<close>

definition cmd_result :: "nat \<Rightarrow> bool \<Rightarrow> pilot \<Rightarrow> pilot \<Rightarrow> bool" where
  "cmd_result n up s s' =
     (unat (motor s' n) = (if up then min 255 (unat (motor s n) + 1) else unat (motor s n) - 1)
      \<and> unat (act s' n) = 256 * unat (motor s' n)
      \<and> irq s'
      \<and> trace s' = trace s @ [WriteDec8 (motor s' 0), WriteDec8 (motor s' 1),
           WriteDec8 (motor s' 2), WriteDec8 (motor s' 3), WriteEol])"

text \<open>Sticks centred, throttle down, switch off, attitude level and at rest.\<close>

definition neutral :: sensors where
  "neutral = \<lparr>rx_co_throttle = 0, rx_co_right = 0x80, rx_cy_right = 0x80, rx_cy_front = 0x80,
     rx_gyro_sw = 0, rx_right_pot = 0, ahrs_pitch = 0, ahrs_roll = 0, ahrs_yaw = 0,
     ahrs_pitch_rate = 0, ahrs_roll_rate = 0, ahrs_yaw_rate = 0\<rparr>"

text \<open>Whether the three conversions of pass \<open>k\<close> of the gyro loop, doubled, are in
  the band, and \<open>adc_values\<close> at the \<open>k\<close>-th evaluation of the loop condition.\<close>

definition polled :: "(nat \<Rightarrow> nat \<Rightarrow> u16) \<Rightarrow> nat \<Rightarrow> bool" where
  "polled conv k = (in_band (2 * conv k 0) \<and> in_band (2 * conv k 1) \<and> in_band (2 * conv k 2))"

fun gyro_reading :: "boot \<Rightarrow> nat \<Rightarrow> (nat \<Rightarrow> u16)" where
  "gyro_reading bt 0 = adc_values bt"
| "gyro_reading bt (Suc k) = gyro_read (adc_convert bt) k (gyro_reading bt k)"

text \<open>Whether all three gyro readings are in the band at the \<open>k\<close>-th evaluation of the
  loop condition (\<open>k = 0\<close>: the values found at entry; \<open>k + 1\<close>: those of pass \<open>k\<close>).\<close>

definition gyro_in_band :: "boot \<Rightarrow> nat \<Rightarrow> bool" where
  "gyro_in_band bt k = in_band3 (gyro_reading bt k)"

text \<open>The sums of squares as natural numbers.\<close>

definition mag_sq :: "boot \<Rightarrow> nat" where
  "mag_sq bt = nat (sint (mag_v bt 0) * sint (mag_v bt 0))
     + nat (sint (mag_v bt 1) * sint (mag_v bt 1))
     + nat (sint (mag_v bt 2) * sint (mag_v bt 2))"

definition accel_sq :: "(nat \<Rightarrow> u8) \<Rightarrow> nat" where
  "accel_sq regs = nat (sint (accel_v regs 0) * sint (accel_v regs 0))
     + nat (sint (accel_v regs 1) * sint (accel_v regs 1))
     + nat (sint (accel_v regs 2) * sint (accel_v regs 2))"

text \<open>
  A board that passes every check: gyro outputs at the expected zero-rate value, a
  field of 200 units on each compass axis, 1 g (\<open>0x4050\<close>) on the third accelerometer
  axis, receiver present with the throttle down.
\<close>

definition nominal :: boot where
  "nominal = \<lparr>SREG = 0, MCUCR = 0, adc_values = (\<lambda>ch. 0x2fb), adc_convert = (\<lambda>k ch. 0x17d),
     ver = 0x02, mag_regs = (\<lambda>i. if even i then 0 else 0xC8), cmps09_mag_calib = (\<lambda>k. 0),
     accel_regs = (\<lambda>k i. if i = 4 then 0x40 else if i = 5 then 0x50 else 0),
     rx_no_signal = 0, rx_throttle = 0\<rparr>"

text \<open>The same board with one conversion of the first gyro axis, in the first pass,
  reading zero.\<close>

definition glitch :: boot where
  "glitch = nominal\<lparr>adc_convert := (\<lambda>k ch. if k = 0 \<and> ch = 0 then 0 else 0x17d)\<rparr>"

text \<open>A state in which neither the attitude estimator nor the actuator driver has been
  started and no command has been handed to \<open>actuator_set\<close>.\<close>

definition quiet :: "pilot \<Rightarrow> bool" where
  "quiet s = (ActuatorsStart \<notin> set (trace s) \<and> AhrsInit \<notin> set (trace s) \<and> act s = act initial)"

text \<open>The five tests of \<open>setup\<close> that lead to \<open>die\<close>.\<close>

definition checks_fail :: "boot \<Rightarrow> bool" where
  "checks_fail bt = (ver bt \<noteq> 0x02 \<or> gyro_bad bt \<or> mag_bad bt \<or> accel_bad bt \<or> throttle_bad bt)"

text \<open>
  The magnitude as the specification words it for the magnetic check: the Euclidean
  norm of two offset axes.
\<close>

definition mag_len_2d :: "boot \<Rightarrow> u32" where
  "mag_len_2d bt = isqrt32 (sq32 (mag_v bt 0) + sq32 (mag_v bt 1))"

text \<open>
  The magnitude as the specification words it for the accelerometer check: the squares
  of the samples themselves, added to the running \<open>len\<close> over \<open>n\<close> reads, and the
  integer square root of the total.
\<close>

fun accel_raw_sum :: "(nat \<Rightarrow> nat \<Rightarrow> u8) \<Rightarrow> nat \<Rightarrow> u32 \<Rightarrow> u32" where
  "accel_raw_sum rd 0 len = len"
| "accel_raw_sum rd (Suc k) len =
     accel_raw_sum rd k len + sq32 (be16 (rd k) 0) + sq32 (be16 (rd k) 2) + sq32 (be16 (rd k) 4)"

definition accel_len_claimed :: "boot \<Rightarrow> u32" where
  "accel_len_claimed bt = isqrt32 (accel_raw_sum (accel_regs bt) 16 (mag_len bt))"

text \<open>The step of the yaw setpoint as the specification words it:
  (yaw-stick value - 128) * 4.\<close>

definition yaw_step :: "u8 \<Rightarrow> int" where
  "yaw_step stick = (int (unat stick) - 128) * 4"

text \<open>
  Over the passes of \<open>loop\<close> on a list of sensor snapshots: whether heading-hold is
  enabled in each call of \<open>control_update\<close>, the yaw stick \<open>co_right\<close> each call uses,
  and the yaw term \<open>dest_yaw\<close> each call puts into the mix.
\<close>

fun hold_on :: "pilot \<Rightarrow> sensors list \<Rightarrow> bool" where
  "hold_on s [] = True"
| "hold_on s (inp # inps) =
     (mode_on (modes (modes_update s inp)) MODE_HEADINGHOLD_ENABLE \<and> hold_on (loop s inp) inps)"

fun yaw_sticks :: "pilot \<Rightarrow> sensors list \<Rightarrow> u8 list" where
  "yaw_sticks s [] = []"
| "yaw_sticks s (inp # inps) =
     co_right (control_locals (modes_update s inp) inp) # yaw_sticks (loop s inp) inps"

fun yaw_terms :: "pilot \<Rightarrow> sensors list \<Rightarrow> s16 list" where
  "yaw_terms s [] = []"
| "yaw_terms s (inp # inps) =
     dest_yaw (control_locals (modes_update s inp) inp) # yaw_terms (loop s inp) inps"

text \<open>Heading-hold on, the switch up, the setpoint close to the top of its range.\<close>

definition holding :: pilot where
  "holding = \<lparr>motor = (\<lambda>n. 0), modes = 2, prev_sw = 1, set_yaw = 32700, irq = True,
     act = (\<lambda>n. 0), trace = []\<rparr>"

section \<open>Easing\<close>

lemma sint_easing: "sint (easing e) = easing_int (sint e)"
proof -
  have r: "- 32768 \<le> sint e" "sint e < 32768"
    using sint_ge [of e] sint_lt [of e] by simp_all
  show ?thesis
    using r
    apply (simp add: easing_def easing_int_def word_sless_alt sint_signed_drop_bit_eq
        drop_bit_eq_div sint_word_ariths)
    apply (auto simp: signed_take_bit_int_eq_self)
    done
qed

lemma easing_int_step: "\<bar>easing_int (i + 1) - easing_int i\<bar> \<le> 1"
  unfolding easing_int_def by (auto; presburger)

lemma sdiv16_one: "sdiv16 x 1 = x"
proof -
  have "sgn (sint x) * \<bar>sint x\<bar> = sint x" by (simp add: sgn_if)
  then show ?thesis by (simp add: sdiv16_def)
qed

lemma control_locals_eased:
  "dest_pitch (control_locals s inp)
     = easing (- (cur_pitch (control_locals s inp)
          + (push_bit 5 (ucast (cy_front (control_locals s inp))) - push_bit 5 128)))
   \<and> dest_roll (control_locals s inp)
     = easing (- (cur_roll (control_locals s inp)
          + (push_bit 5 (ucast (cy_right (control_locals s inp))) - push_bit 5 128)))"
  by (simp add: control_locals_def Let_def sdiv16_one algebra_simps)

text \<open>
  C9.  \<open>control_update\<close> applies one easing law to both errors: \<open>dest_pitch\<close> is the
  eased \<open>-(cur_pitch + dest_pitch)\<close> and \<open>dest_roll\<close> the eased
  \<open>-(cur_roll + dest_roll)\<close>, with the same constants.  The law has no jump where
  its two regions meet.  At an error of \<open>0x400\<close> the biased branch gives \<open>0x100\<close>, at
  \<open>-0x400\<close> it gives \<open>-0x100\<close>, and these are the values the shift by two would give
  there; the last values of the scaled region are \<open>0xff\<close> and \<open>-0x100\<close>.  Between
  any two neighbouring errors the eased value moves by at most one.
\<close>

theorem easing_continuous:
  "dest_pitch (control_locals s inp)
     = easing (- (cur_pitch (control_locals s inp)
          + (push_bit 5 (ucast (cy_front (control_locals s inp))) - push_bit 5 128)))
   \<and> dest_roll (control_locals s inp)
     = easing (- (cur_roll (control_locals s inp)
          + (push_bit 5 (ucast (cy_right (control_locals s inp))) - push_bit 5 128)))
   \<and> easing 0x400 = 0x100 \<and> easing (- 0x400) = - 0x100
   \<and> signed_drop_bit 2 (0x400 :: s16) = 0x400 - 0x300
   \<and> signed_drop_bit 2 (- 0x400 :: s16) = - 0x400 + 0x300
   \<and> easing 0x3ff = 0xff \<and> easing (- 0x3ff) = - 0x100
   \<and> (sint e < 32767 \<longrightarrow> \<bar>sint (easing (e + 1)) - sint (easing e)\<bar> \<le> 1)"
proof -
  have "sint (e + 1) = sint e + 1" if "sint e < 32767"
    using that sint_ge [of e] by (simp add: sint_word_ariths signed_take_bit_int_eq_self)
  then have "sint e < 32767 \<longrightarrow> \<bar>sint (easing (e + 1)) - sint (easing e)\<bar> \<le> 1"
    using easing_int_step [of "sint e"] by (simp add: sint_easing)
  moreover have "easing 0x400 = 0x100 \<and> easing (- 0x400) = - 0x100
   \<and> signed_drop_bit 2 (0x400 :: s16) = 0x400 - 0x300
   \<and> signed_drop_bit 2 (- 0x400 :: s16) = - 0x400 + 0x300
   \<and> easing 0x3ff = 0xff \<and> easing (- 0x3ff) = - 0x100"
    by (simp add: easing_def word_sless_alt)
  ultimately show ?thesis
    using control_locals_eased [of s inp] by blast
qed

theorem easing_continuous_witness:
  "sint (0x3ff :: s16) < 32767 \<and> \<bar>sint (easing (0x3ff + 1)) - sint (easing 0x3ff)\<bar> \<le> 1
   \<and> dest_pitch (control_locals initial (neutral\<lparr>ahrs_pitch := - 0x4000000\<rparr>)) = 0x100
   \<and> dest_pitch (control_locals initial (neutral\<lparr>ahrs_pitch := - 0x3ff0000\<rparr>)) = 0xff
   \<and> dest_roll (control_locals initial (neutral\<lparr>ahrs_roll := 0x4000000\<rparr>)) = - 0x100
   \<and> dest_roll (control_locals initial (neutral\<lparr>ahrs_roll := 0x3ff0000\<rparr>)) = - 0x100"
proof -
  let ?p1 = "neutral\<lparr>ahrs_pitch := - 0x4000000\<rparr>"
  let ?p2 = "neutral\<lparr>ahrs_pitch := - 0x3ff0000\<rparr>"
  let ?r1 = "neutral\<lparr>ahrs_roll := 0x4000000\<rparr>"
  let ?r2 = "neutral\<lparr>ahrs_roll := 0x3ff0000\<rparr>"
  have c: "cur_pitch (control_locals initial ?p1) = - 0x400"
    "cur_pitch (control_locals initial ?p2) = - 0x3ff"
    "cur_roll (control_locals initial ?r1) = 0x400"
    "cur_roll (control_locals initial ?r2) = 0x3ff"
    by (simp_all add: control_locals_def Let_def neutral_def)
  have k: "cy_front (control_locals initial ?p1) = 0x80"
    "cy_front (control_locals initial ?p2) = 0x80"
    "cy_right (control_locals initial ?r1) = 0x80"
    "cy_right (control_locals initial ?r2) = 0x80"
    by (simp_all add: control_locals_def Let_def initial_def neutral_def mode_on_def)
  from easing_continuous [of initial ?p1 "0x3ff"]
  have "dest_pitch (control_locals initial ?p1) = easing 0x400"
    unfolding c k by simp
  moreover from easing_continuous [of initial ?p2 "0x3ff"]
  have "dest_pitch (control_locals initial ?p2) = easing 0x3ff"
    unfolding c k by simp
  moreover from easing_continuous [of initial ?r1 "0x3ff"]
  have "dest_roll (control_locals initial ?r1) = easing (- 0x400)"
    unfolding c k by simp
  moreover from easing_continuous [of initial ?r2 "0x3ff"]
  have "dest_roll (control_locals initial ?r2) = easing (- 0x3ff)"
    unfolding c k by simp
  ultimately show ?thesis
    using easing_continuous [of initial ?p1 "0x3ff"] by simp
qed


section \<open>Motor commands of the control mixer\<close>

lemma CLAMP_range:
  "mi \<le>s ma \<Longrightarrow> mi \<le>s CLAMP x mi ma \<and> CLAMP x mi ma \<le>s ma"
  by (auto simp: CLAMP_def Let_def word_sle_eq word_sless_alt)

lemma uint_of_sint_nonneg: "0 \<le> sint (y :: s32) \<Longrightarrow> uint y = sint y"
  using sint_lt [of y] by (simp add: uint_sint [of y] take_bit_int_eq_self)

lemma CLAMP_motor: "unat (ucast (CLAMP (x :: s32) 0 32000) :: u16) \<le> 32000"
proof -
  let ?y = "CLAMP x 0 32000"
  have "(0 :: s32) \<le>s 32000" by (simp add: word_sle_eq)
  from CLAMP_range [OF this, of x]
  have r: "0 \<le> sint ?y" "sint ?y \<le> 32000" by (simp_all add: word_sle_eq)
  have u: "uint ?y = sint ?y"
    using r(1) by (rule uint_of_sint_nonneg)
  have "uint (ucast ?y :: u16) = take_bit 16 (uint ?y)"
    by (simp add: unsigned_ucast_eq)
  also have "\<dots> = sint ?y"
    using r u by (simp add: take_bit_int_eq_self)
  finally show ?thesis using r by (simp add: unat_eq_nat_uint)
qed

text \<open>
  C4.  Whatever the sticks, the throttle, the attitude estimate, the mode flags and
  the yaw setpoint are, the four values \<open>a\<close>, \<open>b\<close>, \<open>c\<close>, \<open>d\<close> that \<open>control_update\<close>
  computes lie between 0 and 32000, and so do the four commands it hands to
  \<open>actuator_set\<close>.
\<close>

theorem control_update_motor_range:
  "unat (act (control_update s inp) 0) \<le> 32000 \<and> unat (act (control_update s inp) 1) \<le> 32000
   \<and> unat (act (control_update s inp) 2) \<le> 32000 \<and> unat (act (control_update s inp) 3) \<le> 32000
   \<and> 0 \<le>s a (control_locals s inp) \<and> a (control_locals s inp) \<le>s 32000
   \<and> 0 \<le>s b (control_locals s inp) \<and> b (control_locals s inp) \<le>s 32000
   \<and> 0 \<le>s c (control_locals s inp) \<and> c (control_locals s inp) \<le>s 32000
   \<and> 0 \<le>s d (control_locals s inp) \<and> d (control_locals s inp) \<le>s 32000"
proof -
  have z: "(0 :: s32) \<le>s 32000" by (simp add: word_sle_eq)
  show ?thesis
    by (simp add: control_update_def control_locals_def Let_def CLAMP_motor CLAMP_range [OF z])
qed

section \<open>Yaw setpoint with heading-hold disabled\<close>

text \<open>
  C7.  With heading-hold disabled, when \<open>control_update\<close> returns the yaw setpoint is
  the yaw estimate \<open>cur_yaw\<close> captured in this call; the yaw term of the mix is
  \<open>(128 << 5) - (co_right << 5)\<close>, computed from the yaw stick the call uses (the
  receiver's, or the centre value while pan-tilt overrides the sticks); and nothing
  the call produces depends on the setpoint it found.
\<close>

theorem heading_hold_off:
  "\<not> mode_on (modes s) MODE_HEADINGHOLD_ENABLE \<Longrightarrow>
     set_yaw (control_update s inp) = cur_yaw (control_locals s inp)
   \<and> cur_yaw (control_locals s inp) = ahrs_yaw inp + push_bit 1 (ahrs_yaw_rate inp)
   \<and> dest_yaw (control_locals s inp)
       = push_bit 5 128 - push_bit 5 (ucast (co_right (control_locals s inp)))
   \<and> co_right (control_locals s inp)
       = (if mode_on (modes s) MODE_PANTILT_ENABLE then 0x80 else rx_co_right inp)
   \<and> control_update (s\<lparr>set_yaw := y\<rparr>) inp = control_update s inp"
  by (simp add: control_update_def control_locals_def Let_def)

theorem heading_hold_off_witness:
  "\<not> mode_on (modes (initial\<lparr>set_yaw := 1234\<rparr>)) MODE_HEADINGHOLD_ENABLE
   \<and> set_yaw (control_update (initial\<lparr>set_yaw := 1234\<rparr>)
        (neutral\<lparr>ahrs_yaw := 500, ahrs_yaw_rate := 3, rx_co_right := 200\<rparr>)) = 506
   \<and> dest_yaw (control_locals (initial\<lparr>set_yaw := 1234\<rparr>)
        (neutral\<lparr>ahrs_yaw := 500, ahrs_yaw_rate := 3, rx_co_right := 200\<rparr>)) = - 2304"
  using heading_hold_off [of "initial\<lparr>set_yaw := 1234\<rparr>"
      "neutral\<lparr>ahrs_yaw := 500, ahrs_yaw_rate := 3, rx_co_right := 200\<rparr>" 0]
  by (simp add: initial_def neutral_def mode_on_def)

section \<open>Console commands\<close>

lemma unat_shl8: "unat (push_bit 8 (ucast (m :: u8)) :: u16) = 256 * unat m"
proof -
  have m: "unat m < 256" using unsigned_less [of m] by simp
  have "unat (ucast m :: u16) = unat m"
    using m by (simp add: unsigned_ucast_eq take_bit_nat_eq_self)
  then show ?thesis
    using m by (simp add: push_bit_eq_mult unat_word_ariths)
qed

lemma unat_dec: "m \<noteq> 0 \<Longrightarrow> unat (m - 1 :: u8) = unat m - 1"
  by (simp add: unat_minus_one)

lemma unat_inc: "m < 255 \<Longrightarrow> unat (m + 1 :: u8) = unat m + 1"
  by (simp add: word_less_nat_alt unat_word_ariths)

lemma MOTOR_DOWN_props:
  "unat (motor (MOTOR_DOWN n s) n) = unat (motor s n) - 1"
  "k \<noteq> n \<Longrightarrow> motor (MOTOR_DOWN n s) k = motor s k"
  "unat (act (MOTOR_DOWN n s) n) = 256 * unat (motor (MOTOR_DOWN n s) n)"
  "k \<noteq> n \<Longrightarrow> act (MOTOR_DOWN n s) k = act s k"
  "irq (MOTOR_DOWN n s) = irq s" "trace (MOTOR_DOWN n s) = trace s"
  by (simp_all add: MOTOR_DOWN_def Let_def unat_shl8 unat_dec word_gt_0 del: unsigned_ucast_eq)

lemma unat_u8_top: "\<not> unat (m :: u8) < 255 \<Longrightarrow> unat m = 255"
  using unsigned_less [of m, where 'a = nat] by simp

lemma MOTOR_UP_props:
  "unat (motor (MOTOR_UP n s) n) = min 255 (unat (motor s n) + 1)"
  "k \<noteq> n \<Longrightarrow> motor (MOTOR_UP n s) k = motor s k"
  "unat (act (MOTOR_UP n s) n) = 256 * unat (motor (MOTOR_UP n s) n)"
  "k \<noteq> n \<Longrightarrow> act (MOTOR_UP n s) k = act s k"
  "irq (MOTOR_UP n s) = irq s" "trace (MOTOR_UP n s) = trace s"
  by (auto simp add: MOTOR_UP_def Let_def unat_shl8 unat_inc unat_u8_top word_less_nat_alt simp del: unsigned_ucast_eq)

lemma accepted_props:
  "motor (accepted s) = motor s" "act (accepted s) = act s" "irq (accepted s)"
  "trace (accepted s) = trace s @ [WriteDec8 (motor s 0), WriteDec8 (motor s 1),
      WriteDec8 (motor s 2), WriteDec8 (motor s 3), WriteEol]"
  by (simp_all add: accepted_def show_state_def)

lemma handle_input_down:
  "cmd_result n False s (accepted (MOTOR_DOWN n s))"
  by (simp add: cmd_result_def accepted_props MOTOR_DOWN_props)

lemma handle_input_up:
  "cmd_result n True s (accepted (MOTOR_UP n s))"
  by (simp add: cmd_result_def accepted_props MOTOR_UP_props)

lemma handle_input_others_down:
  "k \<noteq> n \<Longrightarrow> motor (accepted (MOTOR_DOWN n s)) k = motor s k \<and> act (accepted (MOTOR_DOWN n s)) k = act s k"
  by (simp add: accepted_props MOTOR_DOWN_props)

lemma handle_input_others_up:
  "k \<noteq> n \<Longrightarrow> motor (accepted (MOTOR_UP n s)) k = motor s k \<and> act (accepted (MOTOR_UP n s)) k = act s k"
  by (simp add: accepted_props MOTOR_UP_props)

text \<open>
  C10.  A character outside the eight commands leaves the state as it is.  A command
  on motor \<open>n\<close> steps that test value down (never below 0) or up (never above 255)
  and leaves the other three alone, then hands \<open>motor[n] << 8\<close>, which is the new
  value times 256, to \<open>actuator_set\<close> for that motor only, enables interrupts and
  prints the four values.  From 254 the command \<open>q\<close> hands over 65280, which is
  above the 32000 of the control loop.
\<close>

theorem handle_input_motor:
  "(cmd_of ch = None \<longrightarrow> handle_input ch s = s)
   \<and> (cmd_of ch = Some (n, up) \<longrightarrow>
        n < 4 \<and> cmd_result n up s (handle_input ch s)
        \<and> (k \<noteq> n \<longrightarrow> motor (handle_input ch s) k = motor s k
              \<and> act (handle_input ch s) k = act s k))
   \<and> unat (act (handle_input CHR ''q'' (initial\<lparr>motor := (\<lambda>n. 254)\<rparr>)) 0) = 65280"
proof -
  have 1: "cmd_of ch = None \<longrightarrow> handle_input ch s = s"
    by (simp add: cmd_of_def handle_input_def)
  have 2: "cmd_of ch = Some (n, up) \<longrightarrow>
        n < 4 \<and> cmd_result n up s (handle_input ch s)
        \<and> (k \<noteq> n \<longrightarrow> motor (handle_input ch s) k = motor s k
              \<and> act (handle_input ch s) k = act s k)"
    using handle_input_down handle_input_up handle_input_others_down handle_input_others_up
    by (simp add: cmd_of_def handle_input_def)
  have 3: "unat (act (handle_input CHR ''q'' (initial\<lparr>motor := (\<lambda>n. 254)\<rparr>)) 0) = 65280"
    by (simp add: handle_input_def accepted_props MOTOR_UP_props)
  from 1 2 3 show ?thesis by blast
qed

theorem handle_input_motor_witness:
  "cmd_of CHR ''a'' = Some (0, False)
   \<and> cmd_result 0 False initial (handle_input CHR ''a'' initial)
   \<and> motor (handle_input CHR ''a'' initial) 0 = 0
   \<and> motor (handle_input CHR ''a'' initial) 1 = motor initial 1
   \<and> cmd_of CHR ''x'' = None \<and> handle_input CHR ''x'' initial = initial"
  using handle_input_motor [of "CHR ''a''" initial 0 False 1]
    handle_input_motor [of "CHR ''x''" initial 0 False 1]
  by (simp add: cmd_of_def cmd_result_def initial_def word_unat_eq_iff)

section \<open>The gyro loop\<close>

lemma in_band3_gyro_read: "in_band3 (gyro_read conv k adc) = polled conv k"
  by (simp add: in_band3_def gyro_read_def polled_def)

lemma unat_cnt_Suc: "cnt < 20 \<Longrightarrow> unat (cnt + 1 :: u8) = Suc (unat cnt)"
  by (simp add: word_less_nat_alt unat_word_ariths)

lemma all_from: "n < m \<Longrightarrow> (\<forall>k. n \<le> k \<and> k < m \<longrightarrow> P k) = (P n \<and> (\<forall>k. Suc n \<le> k \<and> k < m \<longrightarrow> P k))"
  by (metis Suc_leD Suc_leI le_neq_implies_less order_refl)

lemma gyro_poll_21:
  "unat cnt \<le> 20 \<Longrightarrow>
     (fst (gyro_poll conv cnt adc) = 21) =
     (in_band3 adc \<and> (\<forall>k. unat cnt \<le> k \<and> k < 20 \<longrightarrow> polled conv k))"
proof (induction conv cnt adc rule: gyro_poll.induct)
  case (1 conv cnt adc)
  show ?case
  proof (cases "in_band3 adc")
    case False
    have "cnt \<noteq> 21" using "1.prems" by auto
    with False show ?thesis by (subst gyro_poll.simps) simp
  next
    case True
    show ?thesis
    proof (cases "cnt < 20")
      case lt: True
      have u: "unat (cnt + 1) = Suc (unat cnt)" using lt by (rule unat_cnt_Suc)
      have n: "unat cnt < 20" using lt by (simp add: word_less_nat_alt)
      have "(fst (gyro_poll conv (cnt + 1) (gyro_read conv (unat cnt) adc)) = 21) =
            (polled conv (unat cnt) \<and> (\<forall>k. Suc (unat cnt) \<le> k \<and> k < 20 \<longrightarrow> polled conv k))"
        using "1.IH" [OF True lt] n by (simp add: u in_band3_gyro_read)
      also have "\<dots> = (\<forall>k. unat cnt \<le> k \<and> k < 20 \<longrightarrow> polled conv k)"
        using all_from [OF n, of "polled conv"] by simp
      finally show ?thesis
        using True lt by (subst gyro_poll.simps) simp
    next
      case ge: False
      have "unat cnt = 20" using ge "1.prems" by (simp add: word_less_nat_alt)
      then have "cnt = 20" by (simp add: word_unat_eq_iff)
      with True show ?thesis by (subst gyro_poll.simps) auto
    qed
  qed
qed

lemma gyro_poll_le:
  "unat cnt \<le> 20 \<Longrightarrow> unat (fst (gyro_poll conv cnt adc)) \<le> 21"
proof (induction conv cnt adc rule: gyro_poll.induct)
  case (1 conv cnt adc)
  show ?case
  proof (cases "in_band3 adc \<and> cnt < 20")
    case True
    then have "unat (cnt + 1) \<le> 20" by (simp add: unat_cnt_Suc) (simp add: word_less_nat_alt)
    with "1.IH" True show ?thesis by (subst gyro_poll.simps) simp
  next
    case False
    have "unat (cnt + 1) \<le> 21" using "1.prems" by (simp add: unat_word_ariths)
    with False "1.prems" show ?thesis by (subst gyro_poll.simps) auto
  qed
qed

lemma gyro_bad_iff:
  "gyro_bad bt = (\<not> (in_band3 (adc_values bt) \<and> (\<forall>k<20. polled (adc_convert bt) k)))"
proof -
  have "unat (gyro_cnt bt) \<le> 21"
    unfolding gyro_cnt_def by (rule gyro_poll_le) simp
  then have "gyro_bad bt = (gyro_cnt bt \<noteq> 21)"
    by (auto simp: gyro_bad_def word_less_nat_alt word_unat_eq_iff)
  also have "\<dots> = (\<not> (in_band3 (adc_values bt) \<and> (\<forall>k<20. polled (adc_convert bt) k)))"
    unfolding gyro_cnt_def by (subst gyro_poll_21) simp_all
  finally show ?thesis .
qed

lemma all_tests: "(P 0 \<and> (\<forall>k<20. P (Suc k))) = (\<forall>k\<le>20. P k)"
  by (metis Suc_le_eq less_Suc_eq_0_disj less_Suc_eq_le not_less_eq_eq zero_less_Suc)

section \<open>Integer square root and the sums of squares\<close>

lemma isqrt_bits_floor:
  "r * r \<le> n \<Longrightarrow> n < (r + 2 ^ k) * (r + 2 ^ k) \<Longrightarrow>
     isqrt_bits k n r * isqrt_bits k n r \<le> n \<and> n < (isqrt_bits k n r + 1) * (isqrt_bits k n r + 1)"
proof (induction k arbitrary: r)
  case 0
  then show ?case by simp
next
  case (Suc k)
  show ?case
  proof (cases "(r + 2 ^ k) * (r + 2 ^ k) \<le> n")
    case True
    have "n < (r + 2 ^ k + 2 ^ k) * (r + 2 ^ k + 2 ^ k)"
      using Suc.prems(2) by (simp add: algebra_simps)
    with True Suc.IH [of "r + 2 ^ k"] show ?thesis by simp
  next
    case False
    with Suc.prems(1) Suc.IH [of r] show ?thesis by simp
  qed
qed

lemma isqrt32_floor:
  "unat (isqrt32 x) * unat (isqrt32 x) \<le> unat x
   \<and> unat x < (unat (isqrt32 x) + 1) * (unat (isqrt32 x) + 1)"
proof -
  define r where "r = isqrt_bits 16 (unat x) 0"
  have x: "unat x < 2 ^ 32" using unsigned_less [of x, where 'a = nat] by simp
  have "0 * 0 \<le> unat x" "unat x < (0 + 2 ^ 16) * (0 + 2 ^ 16)" using x by simp_all
  then have "isqrt_bits 16 (unat x) 0 * isqrt_bits 16 (unat x) 0 \<le> unat x
      \<and> unat x < (isqrt_bits 16 (unat x) 0 + 1) * (isqrt_bits 16 (unat x) 0 + 1)"
    by (rule isqrt_bits_floor)
  then have fl: "r * r \<le> unat x" "unat x < (r + 1) * (r + 1)"
    unfolding r_def [symmetric] by blast+
  have "r < 2 ^ 16"
  proof (rule ccontr)
    assume "\<not> r < 2 ^ 16"
    then have "(2::nat) ^ 16 * 2 ^ 16 \<le> r * r" by (intro mult_mono) simp_all
    with fl(1) x show False by simp
  qed
  then have "unat (of_nat r :: u32) = r"
    by (simp add: unat_of_nat)
  then have "unat (isqrt32 x) = r"
    unfolding isqrt32_def r_def [symmetric] .
  with fl show ?thesis by simp
qed

lemma isqrt32_lt: "unat (isqrt32 x) < 65536"
proof (rule ccontr)
  assume "\<not> unat (isqrt32 x) < 65536"
  then have "(65536::nat) * 65536 \<le> unat (isqrt32 x) * unat (isqrt32 x)" by (intro mult_mono) simp_all
  moreover have "unat x < 2 ^ 32" using unsigned_less [of x, where 'a = nat] by simp
  ultimately show False using isqrt32_floor [of x] by simp
qed

lemma sq_bound: "- 32768 \<le> (i::int) \<Longrightarrow> i \<le> 32768 \<Longrightarrow> i * i \<le> 1073741824"
proof -
  assume "- 32768 \<le> i" "i \<le> 32768"
  then have "\<bar>i\<bar> \<le> 32768" by simp
  then have "\<bar>i\<bar> * \<bar>i\<bar> \<le> 32768 * 32768" by (intro mult_mono) simp_all
  then show ?thesis by (simp add: abs_mult_self_eq)
qed

lemma sq32_nat: "sq32 v = of_nat (nat (sint v * sint v))"
proof -
  have "0 \<le> sint v * sint v" by simp
  then have "(of_nat (nat (sint v * sint v)) :: u32) = of_int (sint v * sint v)"
    by (rule of_nat_nat)
  then show ?thesis by (simp add: sq32_def)
qed

lemma sint_sq_bound: "sint (v :: s16) * sint v \<le> 1073741824"
  using sint_ge [of v] sint_lt [of v] by (intro sq_bound) simp_all

lemma isqrt32_unique:
  assumes "r * r \<le> unat x" "unat x < (r + 1) * (r + 1)"
  shows "unat (isqrt32 x) = r"
proof -
  let ?q = "unat (isqrt32 x)"
  have q: "?q * ?q \<le> unat x" "unat x < (?q + 1) * (?q + 1)"
    using isqrt32_floor [of x] by simp_all
  have "\<not> r < ?q"
  proof
    assume "r < ?q"
    then have "(r + 1) * (r + 1) \<le> ?q * ?q" by (intro mult_mono) simp_all
    with q(1) assms(2) show False by simp
  qed
  moreover have "\<not> ?q < r"
  proof
    assume "?q < r"
    then have "(?q + 1) * (?q + 1) \<le> r * r" by (intro mult_mono) simp_all
    with q(2) assms(1) show False by simp
  qed
  ultimately show ?thesis by simp
qed

lemma unat_of_nat32: "n < 4294967296 \<Longrightarrow> unat (of_nat n :: u32) = n"
  by (simp add: unat_of_nat)

lemma mag_sum_unat:
  "unat (sq32 (mag_v bt 0) + sq32 (mag_v bt 1) + sq32 (mag_v bt 2)) = mag_sq bt"
proof -
  have e: "sq32 (mag_v bt 0) + sq32 (mag_v bt 1) + sq32 (mag_v bt 2) = of_nat (mag_sq bt)"
    unfolding sq32_nat mag_sq_def of_nat_add ..
  have "mag_sq bt < 4294967296"
    using sint_sq_bound [of "mag_v bt 0"] sint_sq_bound [of "mag_v bt 1"] sint_sq_bound [of "mag_v bt 2"]
    unfolding mag_sq_def by linarith
  then show ?thesis unfolding e by (rule unat_of_nat32)
qed


lemma accel_step:
  "len + sq32 (accel_v regs 0) + sq32 (accel_v regs 1) + sq32 (accel_v regs 2)
   = len + of_nat (accel_sq regs)"
  unfolding sq32_nat accel_sq_def of_nat_add by (simp only: add.assoc)

lemma unat_cnt16_Suc: "cnt < 16 \<Longrightarrow> unat (cnt + 1 :: u8) = Suc (unat cnt)"
  by (simp add: word_less_nat_alt unat_word_ariths)

lemma accel_loop_sum:
  "unat cnt \<le> 16 \<Longrightarrow>
     accel_loop rd cnt len = len + of_nat (\<Sum>k = unat cnt..<16. accel_sq (rd k))"
proof (induction rd cnt len rule: accel_loop.induct)
  case (1 rd cnt len)
  show ?case
  proof (cases "cnt < 16")
    case True
    have u: "unat (cnt + 1) = Suc (unat cnt)" using True by (rule unat_cnt16_Suc)
    have n: "unat cnt < 16" using True by (simp add: word_less_nat_alt)
    have "accel_loop rd cnt len =
          accel_loop rd (cnt + 1) (len + of_nat (accel_sq (rd (unat cnt))))"
      by (subst accel_loop.simps) (simp only: True if_True accel_step)
    also have "\<dots> = len + of_nat (accel_sq (rd (unat cnt)))
          + of_nat (\<Sum>k = Suc (unat cnt)..<16. accel_sq (rd k))"
      using "1.IH" [OF True] n by (simp only: u accel_step)
    also have "\<dots> = len + of_nat (\<Sum>k = unat cnt..<16. accel_sq (rd k))"
      using n by (simp add: sum.atLeast_Suc_lessThan add.assoc)
    finally show ?thesis .
  next
    case False
    then have "unat cnt = 16" using "1.prems" by (simp add: word_less_nat_alt)
    with False show ?thesis by (subst accel_loop.simps) simp
  qed
qed


section \<open>Boot sequence\<close>

lemma quiet_emit:
  "quiet s \<Longrightarrow> ActuatorsStart \<notin> set es \<Longrightarrow> AhrsInit \<notin> set es \<Longrightarrow> quiet (emit es s)"
  by (simp add: quiet_def emit_def)

lemma quiet_boot_report: "quiet (boot_report bt)"
  by (simp add: quiet_def boot_report_def emit_def initial_def)

lemma die_halts:
  "quiet s \<Longrightarrow>
   \<exists>h. die s = Halted h \<and> \<not> irq h \<and> last (trace h) = WriteStr ''ERROR'' \<and> quiet h
     \<and> trace h = trace s @ [WriteStr ''ERROR'']"
  by (simp add: die_def emit_def quiet_def)

lemma setup_dies:
  assumes "checks_fail bt"
  shows "\<exists>s. quiet s \<and> pilot_setup bt = die s"
proof -
  let ?s1 = "boot_report bt"
  let ?s2 = "emit [WriteStr ''Checking if gyro readings in range.. ''] ?s1"
  let ?s3 = "emit [WriteStr ''yep'', WriteEol,
                   WriteStr ''Checking magnetic field magnitude.. '',
                   WriteFp32 (mag_len bt) 1000, WriteStr '' T'', WriteEol] ?s2"
  let ?s4 = "emit [WriteStr ''Checking accelerometer readings.. '',
                   WriteFp32 (accel_len bt) 0x4050, WriteStr '' g'', WriteEol] ?s3"
  let ?s5 = "emit [WriteStr ''Receiver signal: '',
                   WriteStr (if rx_no_signal bt \<noteq> 0 then ''NOPE'' else ''yep''),
                   WriteEol] ?s4"
  let ?s6 = "emit [WriteStr (''Throttle stick is not in the bottom position'' @ crlf)] ?s5"
  have q1: "quiet ?s1" by (rule quiet_boot_report)
  have q2: "quiet ?s2" by (rule quiet_emit [OF q1]) simp_all
  have q3: "quiet ?s3" by (rule quiet_emit [OF q2]) simp_all
  have q4: "quiet ?s4" by (rule quiet_emit [OF q3]) simp_all
  have q5: "quiet ?s5" by (rule quiet_emit [OF q4]) simp_all
  have q6: "quiet ?s6" by (rule quiet_emit [OF q5]) simp_all
  have "pilot_setup bt = die ?s1 \<or> pilot_setup bt = die ?s2 \<or> pilot_setup bt = die ?s3
      \<or> pilot_setup bt = die ?s4 \<or> pilot_setup bt = die ?s6"
    using assms unfolding checks_fail_def pilot_setup_def Let_def by (simp only: if_True if_False split: if_split) blast
  with q1 q2 q3 q4 q6 show ?thesis by blast
qed

lemma setup_runs:
  assumes "\<not> checks_fail bt"
  shows "\<exists>s. pilot_setup bt = Running s \<and> ActuatorsStart \<in> set (trace s) \<and> AhrsInit \<in> set (trace s)"
  using assms unfolding checks_fail_def pilot_setup_def Let_def
  by (simp add: show_state_def emit_def)

text \<open>
  C1.  When one of the checks of \<open>setup\<close> fails (magnetometer revision, gyro
  readings, magnetic field, accelerometer, throttle position), \<open>setup\<close> ends in
  \<open>die\<close>: interrupts are disabled, the last thing written is the message \<open>ERROR\<close>, and
  the program stays there, whatever the sensors deliver afterwards no pass of \<open>loop\<close>
  is made.  Neither \<open>ahrs_init\<close> nor \<open>actuators_start\<close> has been called and no motor
  command has been issued.
\<close>

theorem boot_failure_halts:
  assumes "ver bt \<noteq> 0x02 \<or> gyro_bad bt \<or> mag_bad bt \<or> accel_bad bt \<or> throttle_bad bt"
  shows "\<exists>h. pilot_setup bt = Halted h \<and> \<not> irq h \<and> last (trace h) = WriteStr ''ERROR''
           \<and> ActuatorsStart \<notin> set (trace h) \<and> AhrsInit \<notin> set (trace h)
           \<and> act h = act initial
           \<and> (\<forall>inps. main bt inps = Halted h)"
proof -
  from assms have "checks_fail bt" by (simp add: checks_fail_def)
  then obtain s where s: "quiet s" "pilot_setup bt = die s"
    using setup_dies by blast
  from die_halts [OF s(1)] obtain h where
    h: "die s = Halted h" "\<not> irq h" "last (trace h) = WriteStr ''ERROR''" "quiet h"
    by blast
  have "main bt inps = Halted h" for inps
    by (simp add: main_def s(2) h(1))
  with s(2) h show ?thesis by (auto simp: quiet_def)
qed

theorem boot_failure_halts_witness:
  "ver (nominal\<lparr>ver := 0xff\<rparr>) \<noteq> 0x02
   \<and> (\<exists>h. pilot_setup (nominal\<lparr>ver := 0xff\<rparr>) = Halted h \<and> \<not> irq h
         \<and> last (trace h) = WriteStr ''ERROR''
         \<and> ActuatorsStart \<notin> set (trace h) \<and> AhrsInit \<notin> set (trace h)
         \<and> act h = act initial
         \<and> (\<forall>inps. main (nominal\<lparr>ver := 0xff\<rparr>) inps = Halted h))"
  using boot_failure_halts [of "nominal\<lparr>ver := 0xff\<rparr>"]
  by (simp add: nominal_def)

section \<open>Magnetic field and accelerometer checks\<close>

lemma mag_len_floor:
  "unat (mag_len bt) * unat (mag_len bt) \<le> mag_sq bt
   \<and> mag_sq bt < (unat (mag_len bt) + 1) * (unat (mag_len bt) + 1)"
  using isqrt32_floor [of "sq32 (mag_v bt 0) + sq32 (mag_v bt 1) + sq32 (mag_v bt 2)"]
  unfolding mag_len_def mag_sum_unat .

lemma mag_len_eqI:
  "r * r \<le> mag_sq bt \<Longrightarrow> mag_sq bt < (r + 1) * (r + 1) \<Longrightarrow> unat (mag_len bt) = r"
  unfolding mag_len_def by (rule isqrt32_unique) (simp_all only: mag_sum_unat)

lemma mag_bad_iff: "mag_bad bt = (\<not> (300 \<le> unat (mag_len bt) \<and> unat (mag_len bt) \<le> 600))"
  by (auto simp: mag_bad_def word_less_nat_alt)

lemma accel_sum_unat:
  "unat (accel_sum bt) = (unat (mag_len bt) + (\<Sum>k = 0..<16. accel_sq (accel_regs bt k))) mod 2 ^ 32"
proof -
  have "accel_sum bt = of_nat (unat (mag_len bt)) + of_nat (\<Sum>k = 0..<16. accel_sq (accel_regs bt k))"
    unfolding accel_sum_def by (subst accel_loop_sum) simp_all
  also have "\<dots> = of_nat (unat (mag_len bt) + (\<Sum>k = 0..<16. accel_sq (accel_regs bt k)))"
    by (simp only: of_nat_add)
  finally show ?thesis by (simp only: unat_of_nat) simp
qed

lemma accel_len_unat: "unat (accel_len bt) = (unat (isqrt32 (accel_sum bt)) + 1) div 2"
proof -
  let ?x = "isqrt32 (accel_sum bt)"
  have x: "unat ?x < 65536" by (rule isqrt32_lt)
  then have "unat (?x + 1) = unat ?x + 1" by (simp add: unat_word_ariths)
  then show ?thesis
    by (simp add: accel_len_def drop_bit_eq_div unat_div)
qed

lemma accel_bad_iff:
  "accel_bad bt = (\<not> (0x3f00 \<le> unat (accel_len bt) \<and> unat (accel_len bt) \<le> 0x4070))"
  by (auto simp: accel_bad_def word_less_nat_alt)

lemma accel_v_sint: "sint (accel_v regs k) = sint (be16 regs (2 * k) + 1) div 2"
  by (simp add: accel_v_def sint_signed_drop_bit_eq drop_bit_eq_div)

lemma nominal_mag_sq: "mag_sq nominal = 120000"
  by (simp add: mag_sq_def mag_v_def be16_def nominal_def)

lemma nominal_mag_len: "unat (mag_len nominal) = 346"
  by (rule mag_len_eqI) (simp_all add: nominal_mag_sq)

lemma nominal_accel_sq: "accel_sq (accel_regs nominal k) = 67765824"
  by (simp add: accel_sq_def accel_v_def be16_def nominal_def)

lemma nominal_accel_sum: "unat (accel_sum nominal) = 1084253530"
  by (simp add: accel_sum_unat nominal_accel_sq nominal_mag_len)

lemma nominal_accel_len: "unat (accel_len nominal) = 0x4050"
proof -
  have "unat (isqrt32 (accel_sum nominal)) = 32928"
    by (rule isqrt32_unique) (simp_all add: nominal_accel_sum)
  then show ?thesis by (simp add: accel_len_unat)
qed

lemma nominal_gyro: "\<not> gyro_bad nominal"
  by (simp add: gyro_bad_iff nominal_def in_band3_def in_band_def polled_def)

lemma nominal_passes: "\<not> checks_fail nominal"
  using nominal_gyro
  by (simp add: checks_fail_def mag_bad_iff accel_bad_iff nominal_mag_len nominal_accel_len)
     (simp add: nominal_def throttle_bad_def)


lemma running_iff: "is_Running (pilot_setup bt) = (\<not> checks_fail bt)"
proof (cases "checks_fail bt")
  case True
  then obtain s where "pilot_setup bt = die s" using setup_dies by blast
  with True show ?thesis by (simp add: die_def)
next
  case False
  then obtain s where "pilot_setup bt = Running s" using setup_runs by blast
  with False show ?thesis by simp
qed

lemma halted_iff: "is_Halted (pilot_setup bt) = checks_fail bt"
  using running_iff [of bt] by (cases "pilot_setup bt") simp_all

text \<open>
  C5 (as amended).  The magnetic check subtracts the calibration offset of each axis from
  its register pair, in 16 bits, and takes \<open>isqrt32\<close> of the sum of the squares of
  all three differences: the Euclidean norm in three dimensions, rounded down (the
  sum cannot overflow 32 bits).  \<open>setup\<close> ends in \<open>die\<close> when the result is above 600
  or below 300 and goes on only when it lies in 300..600.
\<close>

theorem mag_check_norm:
  "mag_len bt = isqrt32 (of_nat (mag_sq bt)) \<and> mag_sq bt < 2 ^ 32
   \<and> unat (mag_len bt) * unat (mag_len bt) \<le> mag_sq bt
   \<and> mag_sq bt < (unat (mag_len bt) + 1) * (unat (mag_len bt) + 1)
   \<and> mag_v bt k = be16 (mag_regs bt) (2 * k) - cmps09_mag_calib bt k
   \<and> (mag_bad bt \<longleftrightarrow> \<not> (300 \<le> unat (mag_len bt) \<and> unat (mag_len bt) \<le> 600))
   \<and> (mag_bad bt \<longrightarrow> is_Halted (pilot_setup bt))
   \<and> (is_Running (pilot_setup bt) \<longrightarrow> 300 \<le> unat (mag_len bt) \<and> unat (mag_len bt) \<le> 600)"
proof -
  have "mag_bad bt \<longrightarrow> is_Halted (pilot_setup bt)"
    by (simp add: halted_iff checks_fail_def)
  moreover have "is_Running (pilot_setup bt) \<longrightarrow> 300 \<le> unat (mag_len bt) \<and> unat (mag_len bt) \<le> 600"
    by (simp add: running_iff checks_fail_def mag_bad_iff)
  moreover have "mag_len bt = isqrt32 (of_nat (mag_sq bt))"
    unfolding mag_len_def mag_sq_def sq32_nat of_nat_add ..
  moreover have "mag_sq bt < 2 ^ 32"
    using mag_sum_unat [of bt]
      unsigned_less [of "sq32 (mag_v bt 0) + sq32 (mag_v bt 1) + sq32 (mag_v bt 2)", where 'a = nat]
    by simp
  ultimately show ?thesis
    using mag_len_floor [of bt] mag_bad_iff [of bt] by (simp add: mag_v_def)
qed

theorem mag_check_norm_witness:
  "is_Running (pilot_setup nominal) \<and> unat (mag_len nominal) = 346 \<and> mag_sq nominal = 120000
   \<and> mag_bad (nominal\<lparr>mag_regs := (\<lambda>i. 0)\<rparr>)
   \<and> is_Halted (pilot_setup (nominal\<lparr>mag_regs := (\<lambda>i. 0)\<rparr>))"
proof -
  let ?b = "nominal\<lparr>mag_regs := (\<lambda>i. 0)\<rparr>"
  have "mag_sq ?b = 0"
    by (simp add: mag_sq_def mag_v_def be16_def nominal_def)
  then have "unat (mag_len ?b) = 0"
    by (intro mag_len_eqI) simp_all
  then have bad: "mag_bad ?b"
    by (simp add: mag_bad_iff)
  with mag_check_norm [of ?b 0] have halt: "is_Halted (pilot_setup ?b)"
    by blast
  have run: "is_Running (pilot_setup nominal)"
    using nominal_passes by (simp add: running_iff)
  with mag_check_norm [of nominal 0]
  have "300 \<le> unat (mag_len nominal) \<and> unat (mag_len nominal) \<le> 600"
    by blast
  with run bad halt nominal_mag_len nominal_mag_sq show ?thesis
    by blast
qed

lemma nominal_mag_2d: "unat (mag_len_2d nominal) = 282"
proof -
  have "unat (sq32 (mag_v nominal 0) + sq32 (mag_v nominal 1)) = 80000"
    by (simp add: sq32_def mag_v_def be16_def nominal_def)
  then show ?thesis
    unfolding mag_len_2d_def by (intro isqrt32_unique) simp_all
qed

text \<open>
  C5 as the specification states it fails: with 200 units on each of the three axes
  the norm of two axes is 282, outside 300..600, while \<open>setup\<close> computes 346 and
  goes on to run.
\<close>

theorem mag_norm_not_2d:
  "unat (mag_len_2d nominal) = 282 \<and> unat (mag_len nominal) = 346
   \<and> \<not> mag_bad nominal \<and> is_Running (pilot_setup nominal)"
  using nominal_passes
  by (simp add: nominal_mag_2d nominal_mag_len mag_bad_iff running_iff)

text \<open>
  C6 (as amended).  The accelerometer check reads the three axes 16 times, halves each
  sample with rounding (\<open>(x + 1) >> 1\<close>) and adds the squares of the 48 halved values,
  modulo \<open>2 ^ 32\<close>, to \<open>len\<close>, which still holds the magnitude the magnetic check left
  there.  It then takes \<open>isqrt32\<close> of the total and halves that with rounding;
  \<open>setup\<close> ends in \<open>die\<close> when this value is above \<open>0x4070\<close> or below \<open>0x3f00\<close> and goes
  on only when it lies in \<open>0x3f00..0x4070\<close>.
\<close>

theorem accel_check_sum:
  "unat (accel_sum bt)
     = (unat (mag_len bt) + (\<Sum>k = 0..<16. accel_sq (accel_regs bt k))) mod 2 ^ 32
   \<and> sint (accel_v regs j) = sint (be16 regs (2 * j) + 1) div 2
   \<and> unat (isqrt32 (accel_sum bt)) * unat (isqrt32 (accel_sum bt)) \<le> unat (accel_sum bt)
   \<and> unat (accel_sum bt) < (unat (isqrt32 (accel_sum bt)) + 1) * (unat (isqrt32 (accel_sum bt)) + 1)
   \<and> unat (accel_len bt) = (unat (isqrt32 (accel_sum bt)) + 1) div 2
   \<and> (accel_bad bt \<longleftrightarrow> \<not> (0x3f00 \<le> unat (accel_len bt) \<and> unat (accel_len bt) \<le> 0x4070))
   \<and> (accel_bad bt \<longrightarrow> is_Halted (pilot_setup bt))
   \<and> (is_Running (pilot_setup bt)
        \<longrightarrow> 0x3f00 \<le> unat (accel_len bt) \<and> unat (accel_len bt) \<le> 0x4070)"
proof -
  have "accel_bad bt \<longrightarrow> is_Halted (pilot_setup bt)"
    by (simp add: halted_iff checks_fail_def)
  moreover have "is_Running (pilot_setup bt)
        \<longrightarrow> 0x3f00 \<le> unat (accel_len bt) \<and> unat (accel_len bt) \<le> 0x4070"
    by (simp add: running_iff checks_fail_def accel_bad_iff)
  ultimately show ?thesis
    using accel_sum_unat [of bt] accel_v_sint [of regs j] isqrt32_floor [of "accel_sum bt"]
      accel_len_unat [of bt] accel_bad_iff [of bt]
    by blast
qed


theorem accel_check_sum_witness:
  "is_Running (pilot_setup nominal) \<and> unat (accel_sum nominal) = 1084253530
   \<and> unat (accel_len nominal) = 0x4050
   \<and> accel_bad (nominal\<lparr>accel_regs := (\<lambda>k i. 0)\<rparr>)
   \<and> is_Halted (pilot_setup (nominal\<lparr>accel_regs := (\<lambda>k i. 0)\<rparr>))"
proof -
  let ?b = "nominal\<lparr>accel_regs := (\<lambda>k i. 0)\<rparr>"
  have m: "mag_len ?b = mag_len nominal"
    by (simp add: mag_len_def mag_v_def)
  have "accel_sq (accel_regs ?b k) = 0" for k
    by (simp add: accel_sq_def accel_v_def be16_def)
  then have "unat (accel_sum ?b) = 346"
    by (simp add: accel_sum_unat m nominal_mag_len)
  then have "unat (isqrt32 (accel_sum ?b)) = 18"
    by (intro isqrt32_unique) simp_all
  then have "unat (accel_len ?b) = 9"
    by (simp add: accel_len_unat)
  then show ?thesis
    using accel_check_sum [of nominal "\<lambda>i. 0" 0] accel_check_sum [of ?b "\<lambda>i. 0" 0] nominal_passes
    by (simp add: running_iff nominal_accel_sum nominal_accel_len)
qed

lemma accel_raw_sum_const:
  "accel_raw_sum (\<lambda>k. r) n len
     = len + of_nat n * (sq32 (be16 r 0) + sq32 (be16 r 2) + sq32 (be16 r 4))"
  by (induction n) (simp_all add: algebra_simps)

lemma nominal_accel_claimed: "unat (accel_len_claimed nominal) = 6484"
proof -
  have m: "mag_len nominal = 346"
    using nominal_mag_len by (simp add: word_unat_eq_iff)
  have "accel_raw_sum (accel_regs nominal) 16 (mag_len nominal) = 42045786"
    unfolding nominal_def boot.simps m [unfolded nominal_def]
    by (subst accel_raw_sum_const) (simp add: sq32_def be16_def)
  then have "unat (accel_raw_sum (accel_regs nominal) 16 (mag_len nominal)) = 42045786"
    by simp
  then show ?thesis
    unfolding accel_len_claimed_def by (intro isqrt32_unique) simp_all
qed

text \<open>
  C6 as the specification states it fails: for a board at rest reading 1 g
  (\<open>0x4050\<close>), the integer square root of \<open>len\<close> plus the squares of the 48 samples
  themselves is 6484, outside \<open>0x3f00..0x4070\<close>, while \<open>setup\<close> computes \<open>0x4050\<close>
  and goes on to run.
\<close>

theorem accel_sum_not_of_samples:
  "unat (accel_len_claimed nominal) = 6484 \<and> unat (accel_len nominal) = 0x4050
   \<and> \<not> accel_bad nominal \<and> is_Running (pilot_setup nominal)"
  using nominal_passes
  by (simp add: nominal_accel_claimed nominal_accel_len accel_bad_iff running_iff)


section \<open>Gyro zero-rate check: every reading must be in the band\<close>

lemma gyro_in_band_0: "gyro_in_band bt 0 = in_band3 (adc_values bt)"
  by (simp add: gyro_in_band_def)

lemma gyro_in_band_Suc: "gyro_in_band bt (Suc k) = polled (adc_convert bt) k"
  by (simp add: gyro_in_band_def in_band3_gyro_read)

lemma gyro_poll_first:
  assumes "unat cnt \<le> k" "k \<le> 20"
    "\<forall>j. unat cnt \<le> j \<and> j < k \<longrightarrow> (if j = unat cnt then in_band3 adc else polled conv (j - 1))"
    "\<not> (if k = unat cnt then in_band3 adc else polled conv (k - 1))"
  shows "unat (fst (gyro_poll conv cnt adc)) = k"
  using assms
proof (induction conv cnt adc rule: gyro_poll.induct)
  case (1 conv cnt adc)
  show ?case
  proof (cases "k = unat cnt")
    case True
    with "1.prems"(4) have "\<not> in_band3 adc" by simp
    then show ?thesis using True by (subst gyro_poll.simps) simp
  next
    case False
    with "1.prems"(1) have lt: "unat cnt < k" by simp
    with "1.prems"(3) have ib: "in_band3 adc" by auto
    from lt "1.prems"(2) have c20: "cnt < 20" by (simp add: word_less_nat_alt)
    have u: "unat (cnt + 1) = Suc (unat cnt)" using c20 by (rule unat_cnt_Suc)
    have a: "unat (cnt + 1) \<le> k" using lt u by simp
    have b: "\<forall>j. unat (cnt + 1) \<le> j \<and> j < k \<longrightarrow>
        (if j = unat (cnt + 1) then in_band3 (gyro_read conv (unat cnt) adc) else polled conv (j - 1))"
    proof (intro allI impI)
      fix j assume j: "unat (cnt + 1) \<le> j \<and> j < k"
      then have "unat cnt \<le> j \<and> j < k" "j \<noteq> unat cnt" using u by simp_all
      with "1.prems"(3) have "polled conv (j - 1)" by auto
      then show "if j = unat (cnt + 1) then in_band3 (gyro_read conv (unat cnt) adc) else polled conv (j - 1)"
        by (auto simp: u in_band3_gyro_read)
    qed
    have c: "\<not> (if k = unat (cnt + 1) then in_band3 (gyro_read conv (unat cnt) adc) else polled conv (k - 1))"
      using "1.prems"(4) False by (auto simp: u in_band3_gyro_read)
    have "unat (fst (gyro_poll conv (cnt + 1) (gyro_read conv (unat cnt) adc))) = k"
      using "1.IH" [OF ib c20 a "1.prems"(2) b c] .
    then show ?thesis using ib c20 by (subst gyro_poll.simps) simp
  qed
qed

lemma gyro_cnt_first:
  assumes "k \<le> 20" "\<forall>j<k. gyro_in_band bt j" "\<not> gyro_in_band bt k"
  shows "unat (gyro_cnt bt) = k"
  unfolding gyro_cnt_def
proof (rule gyro_poll_first)
  show "unat (0 :: u8) \<le> k" by simp
  show "k \<le> 20" by fact
  show "\<forall>j. unat (0 :: u8) \<le> j \<and> j < k \<longrightarrow>
      (if j = unat (0 :: u8) then in_band3 (adc_values bt) else polled (adc_convert bt) (j - 1))"
  proof (intro allI impI)
    fix j assume "unat (0 :: u8) \<le> j \<and> j < k"
    with assms(2) have "gyro_in_band bt j" by simp
    then show "if j = unat (0 :: u8) then in_band3 (adc_values bt) else polled (adc_convert bt) (j - 1)"
      by (cases j) (simp_all add: gyro_in_band_0 gyro_in_band_Suc)
  qed
  show "\<not> (if k = unat (0 :: u8) then in_band3 (adc_values bt) else polled (adc_convert bt) (k - 1))"
    using assms(3) by (cases k) (simp_all add: gyro_in_band_0 gyro_in_band_Suc)
qed

text \<open>
  C2 (as amended).  The gyro check tests the three readings up to 21 times: the values
  found at entry and those of up to 20 polls.  It lets \<open>setup\<close> go on exactly when all
  three readings are inside the band at every one of the 21 tests; a reading outside
  the band at any test is fatal, and the first such test ends the polling at once, with
  \<open>cnt\<close> equal to the number of polls made so far.
\<close>

theorem gyro_check_halts_iff:
  "(gyro_bad bt \<longleftrightarrow> (\<exists>k\<le>20. \<not> gyro_in_band bt k))
   \<and> (gyro_bad bt \<longrightarrow> is_Halted (pilot_setup bt))
   \<and> (k \<le> 20 \<and> (\<forall>j<k. gyro_in_band bt j) \<and> \<not> gyro_in_band bt k \<longrightarrow> unat (gyro_cnt bt) = k)"
proof -
  have "(in_band3 (adc_values bt) \<and> (\<forall>k<20. polled (adc_convert bt) k))
        = (gyro_in_band bt 0 \<and> (\<forall>k<20. gyro_in_band bt (Suc k)))"
    by (simp add: gyro_in_band_0 gyro_in_band_Suc)
  also have "\<dots> = (\<forall>k\<le>20. gyro_in_band bt k)"
    by (rule all_tests)
  finally have "gyro_bad bt \<longleftrightarrow> (\<exists>k\<le>20. \<not> gyro_in_band bt k)"
    by (simp add: gyro_bad_iff)
  moreover have "gyro_bad bt \<longrightarrow> is_Halted (pilot_setup bt)"
    by (simp add: halted_iff checks_fail_def)
  ultimately show ?thesis using gyro_cnt_first [of k bt] by blast
qed

lemma glitch_polled: "polled (adc_convert glitch) k = (0 < k)"
  by (simp add: glitch_def nominal_def polled_def in_band_def)

lemma glitch_initial: "in_band3 (adc_values glitch)"
  by (simp add: glitch_def nominal_def in_band3_def in_band_def)

theorem gyro_check_halts_iff_witness:
  "(1::nat) \<le> 20 \<and> gyro_in_band glitch 0 \<and> \<not> gyro_in_band glitch 1
   \<and> unat (gyro_cnt glitch) = 1 \<and> gyro_bad glitch \<and> is_Halted (pilot_setup glitch)"
proof -
  have "gyro_in_band glitch 0" "\<not> gyro_in_band glitch (Suc 0)"
    by (simp_all add: gyro_in_band_0 gyro_in_band_Suc glitch_polled glitch_initial)
  then show ?thesis
    using gyro_check_halts_iff [of glitch 1] by auto
qed

lemma glitch_later: "list_all (gyro_in_band glitch) [2..<21]"
proof -
  have "gyro_in_band glitch k" if "2 \<le> k" for k
    using that by (cases k) (simp_all add: gyro_in_band_Suc glitch_polled)
  then show ?thesis by (simp add: list_all_iff)
qed

lemma glitch_cnt: "gyro_cnt glitch = 1"
proof -
  have "unat (gyro_cnt glitch) = 1"
    by (rule gyro_cnt_first)
       (simp_all add: gyro_in_band_0 gyro_in_band_Suc [of glitch 0, simplified] glitch_polled glitch_initial)
  then show ?thesis by (simp add: word_unat_eq_iff)
qed

text \<open>
  C2 as the specification states it fails: one reading of one axis outside the band in
  the first poll, with the readings before and after it all inside, makes \<open>setup\<close> end
  in \<open>die\<close> after that single poll (\<open>cnt = 1\<close>); the same board without this reading
  passes every check.
\<close>

theorem gyro_transient_is_fatal:
  "gyro_in_band glitch 0 \<and> \<not> gyro_in_band glitch 1 \<and> list_all (gyro_in_band glitch) [2..<21]
   \<and> gyro_cnt glitch = 1 \<and> is_Halted (pilot_setup glitch) \<and> is_Running (pilot_setup nominal)"
proof -
  have "gyro_bad glitch" by (simp add: gyro_bad_def glitch_cnt)
  then have "is_Halted (pilot_setup glitch)" by (simp add: halted_iff checks_fail_def)
  moreover have "gyro_in_band glitch 0" "\<not> gyro_in_band glitch 1"
    using gyro_in_band_Suc [of glitch 0]
    by (simp_all add: gyro_in_band_0 glitch_polled glitch_initial)
  ultimately show ?thesis
    using nominal_passes glitch_later glitch_cnt by (simp add: running_iff)
qed

section \<open>Mode switch: what a switch transition does to the flags\<close>

lemma mode_num_le: "unat (mode_num pot) \<le> 5"
proof -
  have p: "unat pot < 256" using unsigned_less [of pot, where 'a = nat] by simp
  have "unat (ucast pot :: u16) = unat pot"
    using p by (simp add: unsigned_ucast_eq take_bit_nat_eq_self)
  then have "unat ((ucast pot :: u16) + 36) = unat pot + 36"
    using p by (simp add: unat_word_ariths)
  then have "unat (((ucast pot :: u16) + 36) div 49) = (unat pot + 36) div 49"
    by (simp add: unat_div)
  moreover have "(unat pot + 36) div 49 \<le> 5" using p by simp
  ultimately show ?thesis
    by (simp add: mode_num_def unsigned_ucast_eq take_bit_nat_eq_self)
qed

lemma modes_update_bits:
  assumes "rx_gyro_sw inp \<noteq> prev_sw s"
  shows "bit (modes (modes_update s inp)) k \<longleftrightarrow>
     k < 8 \<and> ((k = unat (mode_num (rx_right_pot inp)) \<and> bit (modes s) k)
       \<or> (unat (mode_num (rx_right_pot inp)) \<le> k
           \<and> bit (rx_gyro_sw inp) (k - unat (mode_num (rx_right_pot inp)))))"
  using assms mode_num_le [of "rx_right_pot inp"]
  by (auto simp: modes_update_def Let_def bit_simps dest: bit_imp_le_length)

lemma modes_update_same:
  "rx_gyro_sw inp = prev_sw s \<Longrightarrow> modes_update s inp = s"
  by (simp add: modes_update_def)

text \<open>
  C3.  The code at a switch transition that turns the switch off.  From the initial
  state, switching on with the selector at 50 (index 1) sets heading-hold:
  \<open>modes = 2\<close>.  Switching off with the selector still at 50 leaves \<open>modes = 2\<close>:
  \<open>modes &= 1 << num\<close> keeps bit 1 and \<open>modes |= prev_sw << num\<close> adds nothing, so
  the indexed bit does not follow the new switch state.
\<close>

theorem modes_update_switch_off:
  "modes (modes_update initial (neutral\<lparr>rx_gyro_sw := 1, rx_right_pot := 50\<rparr>)) = 2
   \<and> modes (modes_update (modes_update initial (neutral\<lparr>rx_gyro_sw := 1, rx_right_pot := 50\<rparr>))
        (neutral\<lparr>rx_gyro_sw := 0, rx_right_pot := 50\<rparr>)) = 2
   \<and> prev_sw (modes_update (modes_update initial (neutral\<lparr>rx_gyro_sw := 1, rx_right_pot := 50\<rparr>))
        (neutral\<lparr>rx_gyro_sw := 0, rx_right_pot := 50\<rparr>)) = 0
   \<and> unat (mode_num 50) = mode_bit MODE_HEADINGHOLD_ENABLE
   \<and> mode_on 2 MODE_HEADINGHOLD_ENABLE"
  by (simp add: modes_update_def initial_def neutral_def mode_num_def mode_on_def Let_def)


section \<open>Yaw setpoint under heading-hold\<close>

lemma yaw_delta_word:
  "push_bit 2 (ucast st :: s16) - 512 = word_of_int (yaw_step st)"
  by (simp add: yaw_step_def push_bit_eq_mult algebra_simps)

lemma yaw_step_centre: "yaw_step 128 = 0"
  by (simp add: yaw_step_def)

lemma yaw_step_range: "- 512 \<le> yaw_step st \<and> yaw_step st \<le> 508"
proof -
  have "uint st < 256" using unsigned_less [of st, where 'a = int] by simp
  then show ?thesis by (simp add: yaw_step_def)
qed

lemma control_update_hold:
  assumes "mode_on (modes s) MODE_HEADINGHOLD_ENABLE"
  shows "set_yaw (control_update s inp)
           = set_yaw s + word_of_int (yaw_step (co_right (control_locals s inp)))"
    and "- 0x800 \<le>s dest_yaw (control_locals s inp) \<and> dest_yaw (control_locals s inp) \<le>s 0x800"
proof -
  have z: "(- 0x800 :: s16) \<le>s 0x800" by (simp add: word_sle_eq)
  show "set_yaw (control_update s inp)
           = set_yaw s + word_of_int (yaw_step (co_right (control_locals s inp)))"
    using assms
    by (simp add: control_update_def control_locals_def Let_def yaw_delta_word yaw_step_centre)
  show "- 0x800 \<le>s dest_yaw (control_locals s inp) \<and> dest_yaw (control_locals s inp) \<le>s 0x800"
    using assms CLAMP_range [OF z] by (simp add: control_locals_def Let_def)
qed

lemma set_yaw_modes_update: "set_yaw (modes_update s inp) = set_yaw s"
  by (simp add: modes_update_def Let_def)

lemma loops_hold:
  "hold_on s inps \<Longrightarrow>
     set_yaw (loops s inps) = set_yaw s + word_of_int (sum_list (map yaw_step (yaw_sticks s inps)))
     \<and> (\<forall>e\<in>set (yaw_terms s inps). - 0x800 \<le>s e \<and> e \<le>s 0x800)"
proof (induction inps arbitrary: s)
  case Nil
  then show ?case by simp
next
  case (Cons inp inps)
  let ?m = "modes_update s inp"
  from Cons.prems have h: "mode_on (modes ?m) MODE_HEADINGHOLD_ENABLE" "hold_on (loop s inp) inps"
    by simp_all
  have 1: "set_yaw (loop s inp) = set_yaw s + word_of_int (yaw_step (co_right (control_locals ?m inp)))"
    unfolding loop_def using control_update_hold(1) [OF h(1), of inp]
    by (simp add: set_yaw_modes_update)
  from Cons.IH [OF h(2)] control_update_hold(2) [OF h(1), of inp] 1
  show ?case by (simp add: add.assoc)
qed


lemma length_yaw_lists:
  "length (yaw_sticks s inps) = length inps \<and> length (yaw_terms s inps) = length inps"
  by (induction inps arbitrary: s) simp_all

lemma sint_add_int: "sint ((x :: s16) + word_of_int k) = signed_take_bit 15 (sint x + k)"
proof -
  have "x + word_of_int k = word_of_int (sint x + k)" by simp
  then show ?thesis by (simp only: signed_of_int) simp
qed

text \<open>
  C8 (as amended).  While heading-hold is enabled in every pass, the yaw setpoint after the
  passes is its value before plus the sum of the steps (yaw stick - 128) * 4, as a
  16-bit two's-complement value: the sum is reduced modulo \<open>2 ^ 16\<close> into
  \<open>-32768..32767\<close>, and is exact when it stays in that range.  The yaw stick of a pass
  is the one \<open>control_update\<close> uses, which is the receiver's unless pan-tilt overrides
  it with the centre value.  The yaw term put into the mix in each pass lies in
  \<open>-0x800..0x800\<close>.
\<close>

theorem heading_hold_on:
  assumes "hold_on s inps"
  shows "set_yaw (loops s inps)
           = set_yaw s + word_of_int (sum_list (map yaw_step (yaw_sticks s inps)))
    \<and> sint (set_yaw (loops s inps))
           = signed_take_bit 15 (sint (set_yaw s) + sum_list (map yaw_step (yaw_sticks s inps)))
    \<and> (- 32768 \<le> sint (set_yaw s) + sum_list (map yaw_step (yaw_sticks s inps))
        \<and> sint (set_yaw s) + sum_list (map yaw_step (yaw_sticks s inps)) < 32768
        \<longrightarrow> sint (set_yaw (loops s inps))
              = sint (set_yaw s) + sum_list (map yaw_step (yaw_sticks s inps)))
    \<and> (\<forall>e\<in>set (yaw_terms s inps). - 0x800 \<le> sint e \<and> sint e \<le> 0x800)
    \<and> length (yaw_sticks s inps) = length inps \<and> length (yaw_terms s inps) = length inps
    \<and> co_right (control_locals s' inp)
         = (if mode_on (modes s') MODE_PANTILT_ENABLE then 0x80 else rx_co_right inp)"
proof -
  let ?d = "sum_list (map yaw_step (yaw_sticks s inps))"
  from loops_hold [OF assms] have
    1: "set_yaw (loops s inps) = set_yaw s + word_of_int ?d" and
    2: "\<forall>e\<in>set (yaw_terms s inps). - 0x800 \<le>s e \<and> e \<le>s 0x800"
    by simp_all
  have 3: "sint (set_yaw (loops s inps)) = signed_take_bit 15 (sint (set_yaw s) + ?d)"
    unfolding 1 by (rule sint_add_int)
  have 4: "- 32768 \<le> sint (set_yaw s) + ?d \<and> sint (set_yaw s) + ?d < 32768
        \<longrightarrow> sint (set_yaw (loops s inps)) = sint (set_yaw s) + ?d"
    unfolding 3 by (simp add: signed_take_bit_int_eq_self)
  have 5: "\<forall>e\<in>set (yaw_terms s inps). - 0x800 \<le> sint e \<and> sint e \<le> 0x800"
    using 2 by (simp add: word_sle_eq)
  have 6: "co_right (control_locals s' inp)
         = (if mode_on (modes s') MODE_PANTILT_ENABLE then 0x80 else rx_co_right inp)"
    by (simp add: control_locals_def Let_def)
  from 1 3 4 5 6 length_yaw_lists [of s inps] show ?thesis by blast
qed

lemma holding_step:
  "rx_gyro_sw inp = 1 \<Longrightarrow> modes_update holding inp = holding"
  by (simp add: modes_update_def holding_def)

lemma holding_on: "mode_on (modes holding) MODE_HEADINGHOLD_ENABLE"
  "\<not> mode_on (modes holding) MODE_PANTILT_ENABLE"
  by (simp_all add: holding_def mode_on_def)

lemma holding_stick:
  "rx_gyro_sw inp = 1 \<Longrightarrow> yaw_sticks holding [inp] = [rx_co_right inp]"
  by (simp add: holding_step control_locals_def Let_def holding_on)

lemma holding_set_yaw:
  "rx_gyro_sw inp = 1 \<Longrightarrow>
     set_yaw (loops holding [inp]) = 32700 + word_of_int (yaw_step (rx_co_right inp))"
proof -
  assume sw: "rx_gyro_sw inp = 1"
  have c: "co_right (control_locals holding inp) = rx_co_right inp"
    by (simp add: control_locals_def Let_def holding_on)
  have "set_yaw (control_update holding inp) = set_yaw holding + word_of_int (yaw_step (rx_co_right inp))"
    using control_update_hold(1) [OF holding_on(1), of inp] by (simp only: c)
  moreover have "set_yaw holding = 32700" by (simp add: holding_def)
  ultimately show ?thesis by (simp add: loop_def holding_step [OF sw])
qed

theorem heading_hold_on_witness:
  "hold_on holding [neutral\<lparr>rx_gyro_sw := 1, rx_co_right := 120\<rparr>]
   \<and> yaw_sticks holding [neutral\<lparr>rx_gyro_sw := 1, rx_co_right := 120\<rparr>] = [120]
   \<and> sint (set_yaw (loops holding [neutral\<lparr>rx_gyro_sw := 1, rx_co_right := 120\<rparr>]))
       = sint (set_yaw holding) + yaw_step 120
   \<and> sint (set_yaw holding) + yaw_step 120 = 32668"
proof -
  let ?i = "neutral\<lparr>rx_gyro_sw := 1, rx_co_right := 120\<rparr>"
  have sw: "rx_gyro_sw ?i = 1" by simp
  have h: "hold_on holding [?i]" by (simp add: holding_step [OF sw] holding_on)
  have y: "yaw_sticks holding [?i] = [120]" using holding_stick [OF sw] by simp
  have v: "sint (set_yaw holding) + yaw_step 120 = 32668"
    by (simp add: holding_def yaw_step_def)
  have s: "sum_list (map yaw_step (yaw_sticks holding [?i])) = yaw_step 120"
    unfolding y by simp
  from heading_hold_on [OF h, of holding ?i]
  have "- 32768 \<le> sint (set_yaw holding) + yaw_step 120
        \<and> sint (set_yaw holding) + yaw_step 120 < 32768
        \<longrightarrow> sint (set_yaw (loops holding [?i])) = sint (set_yaw holding) + yaw_step 120"
    unfolding s by blast
  then have "sint (set_yaw (loops holding [?i])) = sint (set_yaw holding) + yaw_step 120"
    unfolding v by simp
  with h y v show ?thesis by blast
qed

lemma reach_holding:
  "loops initial [neutral\<lparr>ahrs_yaw := 32700\<rparr>,
        neutral\<lparr>rx_gyro_sw := 1, rx_right_pot := 50, ahrs_yaw := 32700\<rparr>] = holding"
  by (simp add: loop_def modes_update_def control_update_def control_locals_def Let_def
      initial_def neutral_def holding_def mode_on_def mode_num_def sdiv16_def easing_def CLAMP_def
      word_sless_alt fun_eq_iff)

text \<open>
  C8 as the specification states it fails: with the setpoint at 32700 and the yaw
  stick at 255, one pass under heading-hold should give 32700 + 508 = 33208; the
  \<open>int16_t\<close> setpoint is -32328 afterwards.  The state before is reached from the
  initial one in two passes.
\<close>

theorem heading_hold_wraps:
  "hold_on holding [neutral\<lparr>rx_gyro_sw := 1, rx_co_right := 255\<rparr>]
   \<and> yaw_sticks holding [neutral\<lparr>rx_gyro_sw := 1, rx_co_right := 255\<rparr>] = [255]
   \<and> sint (set_yaw holding) + yaw_step 255 = 33208
   \<and> sint (set_yaw (loops holding [neutral\<lparr>rx_gyro_sw := 1, rx_co_right := 255\<rparr>])) = - 32328
   \<and> loops initial [neutral\<lparr>ahrs_yaw := 32700\<rparr>,
        neutral\<lparr>rx_gyro_sw := 1, rx_right_pot := 50, ahrs_yaw := 32700\<rparr>] = holding"
proof -
  let ?i = "neutral\<lparr>rx_gyro_sw := 1, rx_co_right := 255\<rparr>"
  have sw: "rx_gyro_sw ?i = 1" by simp
  have h: "hold_on holding [?i]" by (simp add: holding_step [OF sw] holding_on)
  have y: "yaw_sticks holding [?i] = [255]" using holding_stick [OF sw] by simp
  have v: "sint (set_yaw holding) + yaw_step 255 = 33208"
    by (simp add: holding_def yaw_step_def)
  have w: "sint (set_yaw (loops holding [?i])) = - 32328"
    using holding_set_yaw [OF sw] by (simp add: yaw_step_def)
  from h y v w reach_holding show ?thesis by blast
qed


end
